theory Spec2Isabelle
  imports Complex_Main
begin

section \<open>Floating-point values\<close>

text \<open>
  The scripts compute with NumPy double-precision numbers.  A value is a finite real
  number or one of the three IEEE special values.  The operations of this section give
  the result of an operation before it is rounded: on finite operands the real number, and
  on the special values what IEEE 754 prescribes and NumPy returns (with a warning, never
  an exception): a non-zero number over zero is an infinity, \<open>0/0\<close>, \<open>inf - inf\<close>,
  \<open>0 * inf\<close> and the square root of a negative number are NaN, and NaN propagates.
  A negative zero is not told apart from zero.
\<close>

datatype npfloat = Fin real | PInf | NInf | NaN

fun is_finite :: "npfloat \<Rightarrow> bool" where
  "is_finite (Fin x) = True"
| "is_finite PInf = False"
| "is_finite NInf = False"
| "is_finite NaN = False"

fun val :: "npfloat \<Rightarrow> real" where
  "val (Fin x) = x"
| "val PInf = 0"
| "val NInf = 0"
| "val NaN = 0"

fun fneg :: "npfloat \<Rightarrow> npfloat" where
  "fneg (Fin x) = Fin (- x)"
| "fneg PInf = NInf"
| "fneg NInf = PInf"
| "fneg NaN = NaN"

definition signed_inf :: "real \<Rightarrow> npfloat" where
  "signed_inf s = (if s = 0 then NaN else if 0 < s then PInf else NInf)"

fun fadd :: "npfloat \<Rightarrow> npfloat \<Rightarrow> npfloat" where
  "fadd (Fin a) (Fin b) = Fin (a + b)"
| "fadd NaN y = NaN"
| "fadd x NaN = NaN"
| "fadd PInf NInf = NaN"
| "fadd NInf PInf = NaN"
| "fadd PInf y = PInf"
| "fadd NInf y = NInf"
| "fadd x PInf = PInf"
| "fadd x NInf = NInf"

definition fsub :: "npfloat \<Rightarrow> npfloat \<Rightarrow> npfloat" where
  "fsub x y = fadd x (fneg y)"

fun fmul :: "npfloat \<Rightarrow> npfloat \<Rightarrow> npfloat" where
  "fmul (Fin a) (Fin b) = Fin (a * b)"
| "fmul NaN y = NaN"
| "fmul x NaN = NaN"
| "fmul (Fin a) PInf = signed_inf a"
| "fmul (Fin a) NInf = signed_inf (- a)"
| "fmul PInf (Fin b) = signed_inf b"
| "fmul NInf (Fin b) = signed_inf (- b)"
| "fmul PInf PInf = PInf"
| "fmul PInf NInf = NInf"
| "fmul NInf PInf = NInf"
| "fmul NInf NInf = PInf"

fun fdiv :: "npfloat \<Rightarrow> npfloat \<Rightarrow> npfloat" where
  "fdiv (Fin a) (Fin b) = (if b = 0 then signed_inf a else Fin (a / b))"
| "fdiv NaN y = NaN"
| "fdiv x NaN = NaN"
| "fdiv (Fin a) PInf = Fin 0"
| "fdiv (Fin a) NInf = Fin 0"
| "fdiv PInf (Fin b) = (if 0 \<le> b then PInf else NInf)"
| "fdiv NInf (Fin b) = (if 0 \<le> b then NInf else PInf)"
| "fdiv PInf y = NaN"
| "fdiv NInf y = NaN"

fun fsqrt :: "npfloat \<Rightarrow> npfloat" where
  "fsqrt (Fin x) = (if x < 0 then NaN else Fin (sqrt x))"
| "fsqrt PInf = PInf"
| "fsqrt NInf = NaN"
| "fsqrt NaN = NaN"

fun fexp :: "npfloat \<Rightarrow> npfloat" where
  "fexp (Fin x) = Fin (exp x)"
| "fexp PInf = PInf"
| "fexp NInf = Fin 0"
| "fexp NaN = NaN"


text \<open>The power operator \<open>x ** n\<close> with a literal natural exponent.\<close>

fun fpow :: "npfloat \<Rightarrow> nat \<Rightarrow> npfloat" where
  "fpow (Fin x) n = Fin (x ^ n)"
| "fpow PInf n = (if n = 0 then Fin 1 else PInf)"
| "fpow NInf n = (if n = 0 then Fin 1 else if even n then PInf else NInf)"
| "fpow NaN n = (if n = 0 then Fin 1 else NaN)"

section \<open>Binary64 rounding\<close>

text \<open>
  Rounding to the nearest binary64 number, ties to the even significand: 53 significant
  bits, the least exponent \<open>-1022\<close> (below it the spacing stays \<open>2 powr (-1074)\<close>, the
  subnormal numbers), and an infinity when the rounded magnitude reaches \<open>2 ^ 1024\<close>.
\<close>

definition round_half_even :: "real \<Rightarrow> int" where
  "round_half_even m =
     (let n = \<lfloor>m\<rfloor>; r = m - of_int n
      in if r < 1/2 then n else if 1/2 < r then n + 1 else if even n then n else n + 1)"

definition b64_exponent :: "real \<Rightarrow> int" where
  "b64_exponent x = max \<lfloor>log 2 \<bar>x\<bar>\<rfloor> (- 1022)"

definition b64_ulp :: "real \<Rightarrow> real" where
  "b64_ulp x = 2 powr of_int (b64_exponent x - 52)"

definition b64_nearest :: "real \<Rightarrow> real" where
  "b64_nearest x = (if x = 0 then 0 else of_int (round_half_even (x / b64_ulp x)) * b64_ulp x)"

definition b64_round :: "real \<Rightarrow> npfloat" where
  "b64_round x =
     (let y = b64_nearest x
      in if 2 ^ 1024 \<le> \<bar>y\<bar> then (if 0 < x then PInf else NInf) else Fin y)"

fun b64 :: "npfloat \<Rightarrow> npfloat" where
  "b64 (Fin v) = b64_round v"
| "b64 PInf = PInf"
| "b64 NInf = NInf"
| "b64 NaN = NaN"

text \<open>
  The operations as the processor and NumPy carry them out: the result of the operation,
  rounded.  Multiplication, division, addition, subtraction and the square root are
  rounded correctly by IEEE 754; the library's \<open>exp\<close>, \<open>log\<close> and power are taken as
  correctly rounded too.
\<close>

definition mul64 :: "npfloat \<Rightarrow> npfloat \<Rightarrow> npfloat" where
  "mul64 x y = b64 (fmul x y)"

definition div64 :: "npfloat \<Rightarrow> npfloat \<Rightarrow> npfloat" where
  "div64 x y = b64 (fdiv x y)"

definition add64 :: "npfloat \<Rightarrow> npfloat \<Rightarrow> npfloat" where
  "add64 x y = b64 (fadd x y)"


definition sqrt64 :: "npfloat \<Rightarrow> npfloat" where
  "sqrt64 x = b64 (fsqrt x)"

definition exp64 :: "npfloat \<Rightarrow> npfloat" where
  "exp64 x = b64 (fexp x)"


definition pow64 :: "npfloat \<Rightarrow> nat \<Rightarrow> npfloat" where
  "pow64 x n = b64 (fpow x n)"

datatype py_error = ValueError | RuntimeError | TypeError | OverflowError

text \<open>
  The power \<open>x ** n\<close> of Python.  On a NumPy value an overflow gives an infinity; on a
  built-in \<open>float\<close> with a finite base it raises \<open>OverflowError\<close>.
\<close>

definition pow_py :: "bool \<Rightarrow> npfloat \<Rightarrow> nat \<Rightarrow> py_error + npfloat" where
  "pow_py builtin x n =
     (let r = pow64 x n
      in if builtin \<and> is_finite x \<and> \<not> is_finite r then Inl OverflowError else Inr r)"

text \<open>
  The unit roundoff, and the relation used to follow a computation: \<open>tracks k n x y\<close>
  says that the real number \<open>x\<close> lies between \<open>2 powr (-n)\<close> and \<open>2 powr n\<close> and that the
  computed \<open>y\<close> is \<open>x\<close> up to \<open>k\<close> relative rounding errors.
\<close>

definition b64_u :: real where
  "b64_u = 1 / 2 ^ 53"

definition tracks :: "nat \<Rightarrow> nat \<Rightarrow> real \<Rightarrow> real \<Rightarrow> bool" where
  "tracks k n x y \<longleftrightarrow>
     1 / 2 ^ n \<le> x \<and> x \<le> 2 ^ n \<and> x * (1 - b64_u) ^ k \<le> y \<and> y * (1 - b64_u) ^ k \<le> x"

text \<open>A positive real number between \<open>2 powr (-n)\<close> and \<open>2 powr n\<close>.\<close>

definition in_band :: "nat \<Rightarrow> real \<Rightarrow> bool" where
  "in_band n x \<longleftrightarrow> 1 / 2 ^ n \<le> x \<and> x \<le> 2 ^ n"

section \<open>Acquisition time for a target SNR (conventional\_readout.py)\<close>

record AcquisitionParams =
  photon_count_rate :: npfloat
  readout_time :: npfloat
  contrast :: npfloat

definition photons_per_readout :: "AcquisitionParams \<Rightarrow> npfloat" where
  "photons_per_readout self = mul64 (photon_count_rate self) (readout_time self)"

text \<open>
  The function has no argument check and no \<open>raise\<close>.  The square roots are NumPy
  operations, so the values after them are NumPy scalars and no operation raises: each
  call returns a value.
\<close>

definition calculate_time_to_snr :: "AcquisitionParams \<Rightarrow> npfloat \<Rightarrow> npfloat \<Rightarrow> npfloat" where
  "calculate_time_to_snr params evolution_time target_snr =
    (let photons = photons_per_readout params;
         snr_per_readout =
           div64 (mul64 (mul64 (contrast params) (sqrt64 photons)) (Fin 1)) (sqrt64 (Fin 2));
         n_readouts = pow64 (div64 target_snr snr_per_readout) 2;
         acquisition_time = mul64 n_readouts (readout_time params);
         total_time = add64 (mul64 evolution_time n_readouts) acquisition_time
     in total_time)"

text \<open>Parameters given by three finite numbers.\<close>

abbreviation mk_params :: "real \<Rightarrow> real \<Rightarrow> real \<Rightarrow> AcquisitionParams" where
  "mk_params rate rt c \<equiv>
     \<lparr>photon_count_rate = Fin rate, readout_time = Fin rt, contrast = Fin c\<rparr>"

text \<open>The number of readouts as a real number: the source's expression, not rounded.\<close>

definition readouts_exact :: "real \<Rightarrow> real \<Rightarrow> real \<Rightarrow> real \<Rightarrow> real" where
  "readouts_exact rate rt c target = (target / (c * sqrt (rate * rt) * 1 / sqrt 2))\<^sup>2"

text \<open>
  The formula as the specification words it, over the reals: photons per readout, SNR per
  readout, required readouts, total time.
\<close>

definition timeToTargetSNR_spec :: "real \<Rightarrow> real \<Rightarrow> real \<Rightarrow> real \<Rightarrow> real \<Rightarrow> real" where
  "timeToTargetSNR_spec rate rt c evolutionTime targetSNR =
    (let photons = rate * rt;
         snrPerReadout = c * sqrt photons / sqrt 2;
         requiredReadouts = (targetSNR / snrPerReadout)\<^sup>2
     in requiredReadouts * (evolutionTime + rt))"

section \<open>Gaussian approximation of a delta function (delta\_function.py)\<close>



section \<open>Momentum filter function (atc\_plots\_kernel.py)\<close>

text \<open>
  The cube is a NumPy operation on the script's grid and the power of a built-in \<open>float\<close>
  when \<open>q\<close> is one; the flag \<open>builtin\<close> says which.
\<close>

definition f :: "bool \<Rightarrow> npfloat \<Rightarrow> npfloat \<Rightarrow> py_error + npfloat" where
  "f builtin q d =
     (case pow_py builtin q 3 of
        Inl e \<Rightarrow> Inl e
      | Inr cube \<Rightarrow> Inr (mul64 cube (exp64 (mul64 (mul64 (Fin (- 2)) q) d))))"

text \<open>The kernel as a function of real numbers.\<close>

definition momentumKernel :: "real \<Rightarrow> real \<Rightarrow> real" where
  "momentumKernel q d = q ^ 3 * exp (- 2 * q * d)"

section \<open>Sombrero potential (sombrero\_potential.py, sombrero\_sonnet.py)\<close>





section \<open>Stretched-exponential fit (plot\_T1\_decay\_80K\_2L.py)\<close>

text \<open>
  The power \<open>x ** y\<close> with a floating-point exponent, after C99 \<open>pow\<close>: a negative base
  with a non-integer exponent gives NaN, any base to the power zero gives one.
\<close>

fun fpowr :: "npfloat \<Rightarrow> npfloat \<Rightarrow> npfloat" where
  "fpowr x (Fin y) =
     (if y = 0 then Fin 1
      else case x of
        Fin a \<Rightarrow>
          (if 0 < a then Fin (a powr y)
           else if a = 0 then (if 0 < y then Fin 0 else PInf)
           else if y = of_int \<lfloor>y\<rfloor> then Fin (a powi \<lfloor>y\<rfloor>)
           else NaN)
      | PInf \<Rightarrow> (if 0 < y then PInf else Fin 0)
      | NInf \<Rightarrow> (if y < 0 then Fin 0
                 else if y = of_int \<lfloor>y\<rfloor> \<and> odd \<lfloor>y\<rfloor> then NInf else PInf)
      | NaN \<Rightarrow> NaN)"
| "fpowr x PInf =
     (case x of
        Fin a \<Rightarrow> (if \<bar>a\<bar> = 1 then Fin 1 else if \<bar>a\<bar> < 1 then Fin 0 else PInf)
      | PInf \<Rightarrow> PInf
      | NInf \<Rightarrow> PInf
      | NaN \<Rightarrow> NaN)"
| "fpowr x NInf =
     (case x of
        Fin a \<Rightarrow> (if \<bar>a\<bar> = 1 then Fin 1 else if \<bar>a\<bar> < 1 then PInf else Fin 0)
      | PInf \<Rightarrow> Fin 0
      | NInf \<Rightarrow> Fin 0
      | NaN \<Rightarrow> NaN)"
| "fpowr x NaN = (if x = Fin 1 then Fin 1 else NaN)"

definition stretched_exp :: "npfloat \<Rightarrow> npfloat \<Rightarrow> npfloat \<Rightarrow> npfloat \<Rightarrow> npfloat" where
  "stretched_exp t A tau gamma = fmul A (fexp (fneg (fpowr (fdiv t tau) gamma)))"

text \<open>Maximum and minimum of an array: NaN propagates, an empty array raises.\<close>

fun fmax :: "npfloat \<Rightarrow> npfloat \<Rightarrow> npfloat" where
  "fmax (Fin a) (Fin b) = Fin (max a b)"
| "fmax NaN y = NaN"
| "fmax x NaN = NaN"
| "fmax PInf y = PInf"
| "fmax x PInf = PInf"
| "fmax NInf y = y"
| "fmax x NInf = x"

fun fmin :: "npfloat \<Rightarrow> npfloat \<Rightarrow> npfloat" where
  "fmin (Fin a) (Fin b) = Fin (min a b)"
| "fmin NaN y = NaN"
| "fmin x NaN = NaN"
| "fmin NInf y = NInf"
| "fmin x NInf = NInf"
| "fmin PInf y = y"
| "fmin x PInf = x"

fun np_max :: "npfloat list \<Rightarrow> py_error + npfloat" where
  "np_max [] = Inl ValueError"
| "np_max (x # xs) = Inr (foldl fmax x xs)"

fun np_min :: "npfloat list \<Rightarrow> py_error + npfloat" where
  "np_min [] = Inl ValueError"
| "np_min (x # xs) = Inr (foldl fmin x xs)"

text \<open>\<^verbatim>\<open>np.diag\<close> of a two-dimensional array, given as the list of its rows.\<close>

definition diag :: "'a list list \<Rightarrow> 'a list" where
  "diag m = map (\<lambda>i. m ! i ! i) [0..<(case m of [] \<Rightarrow> 0 | r # _ \<Rightarrow> min (length m) (length r))]"

text \<open>
  \<^verbatim>\<open>scipy.optimize.curve_fit\<close> is a library routine outside the repository.  The script
  is modelled over an arbitrary routine of its interface: model function, abscissae,
  ordinates, \<^verbatim>\<open>sigma\<close>, \<^verbatim>\<open>p0\<close>, \<^verbatim>\<open>absolute_sigma\<close> and \<^verbatim>\<open>maxfev\<close>; it
  raises, or returns the estimates and their covariance matrix.
\<close>

type_synonym curve_fit_routine =
  "(npfloat \<Rightarrow> npfloat \<Rightarrow> npfloat \<Rightarrow> npfloat \<Rightarrow> npfloat) \<Rightarrow> npfloat list \<Rightarrow> npfloat list
     \<Rightarrow> npfloat list \<Rightarrow> npfloat list \<Rightarrow> bool \<Rightarrow> nat
     \<Rightarrow> py_error + (npfloat list \<times> npfloat list list)"

text \<open>
  Lines 31 to 35 of the script: the initial guesses \<^verbatim>\<open>p0 = [A0, tau0, gamma0]\<close>, from
  the signal column and the time column in microseconds (the file holds milliseconds; the
  script multiplies by 1000 before fitting).  \<^verbatim>\<open>max\<close> and \<^verbatim>\<open>min\<close> of an empty
  column raise.
\<close>

definition initial_guesses :: "npfloat list \<Rightarrow> npfloat list \<Rightarrow> py_error + npfloat list" where
  "initial_guesses time_us signal =
    (case np_max signal of Inl e \<Rightarrow> Inl e | Inr A0 \<Rightarrow>
     (case np_max time_us of Inl e \<Rightarrow> Inl e | Inr tmax \<Rightarrow>
      (case np_min time_us of Inl e \<Rightarrow> Inl e | Inr tmin \<Rightarrow>
        (let tau0 = fdiv (fsub tmax tmin) (Fin 2);
             gamma0 = Fin 1
         in Inr [A0, tau0, gamma0]))))"

text \<open>
  Lines 38 to 40: the call of the fit, the unpacking of the three estimates and the
  standard errors.  The result is the pair \<^verbatim>\<open>(popt, perr)\<close>; an exception that ends
  the script is \<open>Inl\<close>.  The script has no \<^verbatim>\<open>try\<close> and no test of what the fit
  returned.
\<close>

definition fit_T1_decay ::
  "curve_fit_routine \<Rightarrow> npfloat list \<Rightarrow> npfloat list \<Rightarrow> npfloat list
     \<Rightarrow> py_error + (npfloat list \<times> npfloat list)" where
  "fit_T1_decay curve_fit time_us signal error =
    (case initial_guesses time_us signal of Inl e \<Rightarrow> Inl e | Inr p0 \<Rightarrow>
     (case curve_fit stretched_exp time_us signal error p0 True 10000 of
        Inl e \<Rightarrow> Inl e
      | Inr (popt, pcov) \<Rightarrow>
          if length popt \<noteq> 3 then Inl ValueError
          else Inr (popt, map fsqrt (diag pcov))))"

section \<open>Binary64 rounding: error, range and sign\<close>

lemma round_half_even_error: "\<bar>of_int (round_half_even m) - m\<bar> \<le> 1/2"
  unfolding round_half_even_def Let_def by (auto simp: abs_if) linarith+

lemma round_half_even_ge_floor: "\<lfloor>m\<rfloor> \<le> round_half_even m"
  unfolding round_half_even_def Let_def by auto

lemma round_half_even_nonneg: "0 \<le> m \<Longrightarrow> 0 \<le> round_half_even m"
  using round_half_even_ge_floor [of m] by (simp add: order_trans [of 0 "\<lfloor>m\<rfloor>"])

lemma round_half_even_nonpos: "m \<le> 0 \<Longrightarrow> round_half_even m \<le> 0"
  unfolding round_half_even_def Let_def by (auto simp: floor_le_iff)

lemma round_half_even_small:
  assumes "\<bar>m\<bar> < 1/2"
  shows "round_half_even m = 0"
proof (cases "0 \<le> m")
  case True
  then have "\<lfloor>m\<rfloor> = 0" using assms by (simp add: floor_eq_iff)
  then show ?thesis using assms True by (simp add: round_half_even_def)
next
  case False
  then have "\<lfloor>m\<rfloor> = - 1" using assms by (simp add: floor_eq_iff)
  then show ?thesis using assms False by (simp add: round_half_even_def)
qed

lemma round_half_even_of_int: "round_half_even (of_int k) = k"
  unfolding round_half_even_def Let_def by simp

lemma b64_ulp_pos: "0 < b64_ulp x"
  by (simp add: b64_ulp_def)


lemma b64_exponent_normal:
  assumes "1 / 2 ^ 1022 \<le> \<bar>x\<bar>"
  shows "b64_exponent x = \<lfloor>log 2 \<bar>x\<bar>\<rfloor>"
    and "2 powr of_int (b64_exponent x) \<le> \<bar>x\<bar>"
    and "\<bar>x\<bar> < 2 powr of_int (b64_exponent x + 1)"
proof -
  have pos: "0 < \<bar>x\<bar>" using assms by (smt (verit) divide_pos_pos zero_less_power)
  have "(2::real) powr (- 1022) = 1 / 2 ^ 1022"
    by (simp add: powr_minus_divide)
  then have "(2::real) powr (- 1022) \<le> \<bar>x\<bar>" using assms by simp
  then have "- 1022 \<le> log 2 \<bar>x\<bar>" using pos by (simp add: le_log_iff)
  then have "- 1022 \<le> \<lfloor>log 2 \<bar>x\<bar>\<rfloor>" by (simp add: le_floor_iff)
  then show e: "b64_exponent x = \<lfloor>log 2 \<bar>x\<bar>\<rfloor>" by (simp add: b64_exponent_def)
  from pos have "(of_int \<lfloor>log 2 \<bar>x\<bar>\<rfloor> \<le> log 2 \<bar>x\<bar>)
      = (2 powr of_int \<lfloor>log 2 \<bar>x\<bar>\<rfloor> \<le> \<bar>x\<bar>)"
    by (intro le_log_iff) simp_all
  then show "2 powr of_int (b64_exponent x) \<le> \<bar>x\<bar>"
    unfolding e by simp
  from pos have "(log 2 \<bar>x\<bar> < of_int (\<lfloor>log 2 \<bar>x\<bar>\<rfloor> + 1))
      = (\<bar>x\<bar> < 2 powr of_int (\<lfloor>log 2 \<bar>x\<bar>\<rfloor> + 1))"
    by (intro log_less_iff) simp_all
  then show "\<bar>x\<bar> < 2 powr of_int (b64_exponent x + 1)"
    unfolding e by simp
qed

lemma b64_nearest_error:
  assumes "1 / 2 ^ 1022 \<le> \<bar>x\<bar>"
  shows "\<bar>b64_nearest x - x\<bar> \<le> \<bar>x\<bar> / 2 ^ 53"
proof -
  have nz: "x \<noteq> 0" using assms by (smt (verit) divide_pos_pos zero_less_power abs_zero)
  let ?u = "b64_ulp x"
  have u: "0 < ?u" by (rule b64_ulp_pos)
  have "b64_nearest x - x = (of_int (round_half_even (x / ?u)) - x / ?u) * ?u"
    using nz u by (simp add: b64_nearest_def field_simps)
  then have "\<bar>b64_nearest x - x\<bar> = \<bar>of_int (round_half_even (x / ?u)) - x / ?u\<bar> * ?u"
    using u by (simp add: abs_mult)
  also have "\<dots> \<le> 1/2 * ?u"
    using round_half_even_error [of "x / ?u"] u by (intro mult_right_mono) simp_all
  also have "1/2 * ?u = 2 powr of_int (b64_exponent x) / 2 ^ 53"
  proof -
    have "?u = 2 powr (of_int (b64_exponent x) - 52)" by (simp add: b64_ulp_def)
    also have "\<dots> = 2 powr of_int (b64_exponent x) / 2 powr 52" by (rule powr_diff)
    finally show ?thesis by simp
  qed
  also have "\<dots> \<le> \<bar>x\<bar> / 2 ^ 53"
    using b64_exponent_normal(2) [OF assms] by (simp add: divide_right_mono)
  finally show ?thesis .
qed


lemma b64_round_zero: "b64_round 0 = Fin 0"
  by (simp add: b64_round_def b64_nearest_def)

lemma b64_round_not_nan: "b64_round x \<noteq> NaN"
  by (simp add: b64_round_def Let_def)

lemma b64_round_normal:
  assumes "1 / 2 ^ 1022 \<le> \<bar>x\<bar>" "\<bar>x\<bar> \<le> 2 ^ 1023"
  shows "\<exists>y. b64_round x = Fin y \<and> \<bar>y - x\<bar> \<le> \<bar>x\<bar> / 2 ^ 53"
proof -
  note e = b64_nearest_error [OF assms(1)]
  have "\<bar>b64_nearest x\<bar> \<le> \<bar>x\<bar> + \<bar>x\<bar> / 2 ^ 53" using e by linarith
  also have "\<dots> \<le> 2 ^ 1023 + 2 ^ 1023 / 2 ^ 53"
    using assms(2) by (intro add_mono divide_right_mono) simp_all
  also have "\<dots> < (2::real) ^ 1024" by simp
  finally have "\<not> 2 ^ 1024 \<le> \<bar>b64_nearest x\<bar>" by simp
  then have "b64_round x = Fin (b64_nearest x)" by (simp add: b64_round_def)
  with e show ?thesis by blast
qed

lemma b64_nearest_nonneg: "0 \<le> x \<Longrightarrow> 0 \<le> b64_nearest x"
  using b64_ulp_pos [of x] round_half_even_nonneg [of "x / b64_ulp x"]
  by (simp add: b64_nearest_def)

lemma b64_nearest_nonpos: "x \<le> 0 \<Longrightarrow> b64_nearest x \<le> 0"
  using b64_ulp_pos [of x] round_half_even_nonpos [of "x / b64_ulp x"]
  by (simp add: b64_nearest_def mult_le_0_iff divide_le_0_iff)

lemma b64_round_nonneg:
  assumes "0 \<le> x"
  shows "b64_round x = PInf \<or> (\<exists>y. 0 \<le> y \<and> b64_round x = Fin y)"
proof (cases "2 ^ 1024 \<le> \<bar>b64_nearest x\<bar>")
  case True
  then have "b64_nearest x \<noteq> 0" by auto
  then have "x \<noteq> 0" by (auto simp: b64_nearest_def)
  with assms True show ?thesis by (simp add: b64_round_def)
next
  case False
  then show ?thesis using b64_nearest_nonneg [OF assms] by (simp add: b64_round_def)
qed

lemma b64_round_nonpos:
  assumes "x \<le> 0"
  shows "b64_round x = NInf \<or> (\<exists>y. y \<le> 0 \<and> b64_round x = Fin y)"
proof (cases "2 ^ 1024 \<le> \<bar>b64_nearest x\<bar>")
  case True
  with assms show ?thesis by (simp add: b64_round_def)
next
  case False
  then show ?thesis using b64_nearest_nonpos [OF assms] by (simp add: b64_round_def)
qed

lemma b64_round_overflow:
  assumes "2 ^ 1024 \<le> x"
  shows "b64_round x = PInf"
proof -
  have x: "0 < x" using assms by (smt (verit) zero_less_power)
  have n: "1 / 2 ^ 1022 \<le> \<bar>x\<bar>"
  proof -
    have "1 / 2 ^ 1022 \<le> (1::real)" by simp
    also have "\<dots> \<le> 2 ^ 1024" by simp
    finally show ?thesis using assms by simp
  qed
  let ?u = "b64_ulp x"
  have u: "0 < ?u" by (rule b64_ulp_pos)
  have lo: "2 powr of_int (b64_exponent x) \<le> x"
    using b64_exponent_normal(2) [OF n] x by simp
  have hi: "x < 2 powr of_int (b64_exponent x + 1)"
    using b64_exponent_normal(3) [OF n] x by simp
  have ueq: "?u = 2 powr of_int (b64_exponent x) / 2 ^ 52"
  proof -
    have "?u = 2 powr (of_int (b64_exponent x) - 52)" by (simp add: b64_ulp_def)
    also have "\<dots> = 2 powr of_int (b64_exponent x) / 2 powr 52" by (rule powr_diff)
    finally show ?thesis by simp
  qed
  have p: "(2::real) powr 1024 = 2 ^ 1024" by (rule powr_numeral) simp
  have "(2::real) powr 1024 < 2 powr of_int (b64_exponent x + 1)"
    unfolding p using assms hi by (rule le_less_trans)
  then have "(1024::real) < of_int (b64_exponent x + 1)"
    by (subst (asm) powr_less_cancel_iff) simp_all
  then have "1024 \<le> b64_exponent x" by linarith
  then have "(1024::real) \<le> of_int (b64_exponent x)" by linarith
  then have "(2::real) powr 1024 \<le> 2 powr of_int (b64_exponent x)"
    by (subst powr_le_cancel_iff) simp_all
  then have big: "(2::real) ^ 1024 \<le> 2 powr of_int (b64_exponent x)"
    unfolding p .
  have "2 ^ 52 * ?u \<le> x" using lo by (simp add: ueq)
  then have "(2::real) ^ 52 \<le> x / ?u" using u by (simp add: field_simps)
  then have "of_int (2 ^ 52) \<le> x / ?u" by simp
  then have "2 ^ 52 \<le> \<lfloor>x / ?u\<rfloor>" by (simp only: le_floor_iff)
  then have "2 ^ 52 \<le> round_half_even (x / ?u)"
    using round_half_even_ge_floor [of "x / ?u"] by linarith
  then have "(2::real) ^ 52 \<le> of_int (round_half_even (x / ?u))"
    by (metis of_int_le_iff of_int_numeral of_int_power)
  then have "2 ^ 52 * ?u \<le> of_int (round_half_even (x / ?u)) * ?u"
    using u by (intro mult_right_mono) simp_all
  then have "2 powr of_int (b64_exponent x) \<le> b64_nearest x"
    using x by (simp add: b64_nearest_def ueq)
  with big have "2 ^ 1024 \<le> \<bar>b64_nearest x\<bar>" by linarith
  with x show ?thesis by (simp add: b64_round_def)
qed

lemma b64_round_underflow:
  assumes "\<bar>x\<bar> < 1 / 2 ^ 1075"
  shows "b64_round x = Fin 0"
proof (cases "x = 0")
  case True
  then show ?thesis by (simp add: b64_round_zero)
next
  case False
  then have pos: "0 < \<bar>x\<bar>" by simp
  have "(2::real) powr (- 1075) = 1 / 2 ^ 1075" by (simp add: powr_minus_divide)
  then have "\<bar>x\<bar> < 2 powr (- 1075)" using assms by simp
  then have "log 2 \<bar>x\<bar> < - 1075" using pos by (simp add: log_less_iff)
  then have "\<lfloor>log 2 \<bar>x\<bar>\<rfloor> < - 1022" by (simp add: floor_less_iff)
  then have e: "b64_exponent x = - 1022" by (simp add: b64_exponent_def)
  have u: "b64_ulp x = 1 / 2 ^ 1074"
    by (simp add: b64_ulp_def e powr_minus_divide)
  have "\<bar>x / b64_ulp x\<bar> = \<bar>x\<bar> * 2 ^ 1074" by (simp add: u abs_mult)
  also have "\<dots> < 1 / 2 ^ 1075 * 2 ^ 1074" using assms by (intro mult_strict_right_mono) simp_all
  also have "\<dots> = (1/2::real)" by simp
  finally have "round_half_even (x / b64_ulp x) = 0" by (rule round_half_even_small)
  then have "b64_nearest x = 0" by (simp add: b64_nearest_def)
  then show ?thesis by (simp add: b64_round_def)
qed


section \<open>Following a computation through its roundings\<close>

lemma b64_u_bounds: "0 < b64_u" "b64_u < 1" "0 < 1 - b64_u" "1 - b64_u \<le> 1"
  by (simp_all add: b64_u_def)

lemma shrink_pos: "0 < (1 - b64_u) ^ k"
  using b64_u_bounds by simp

lemma shrink_le_one: "(1 - b64_u) ^ k \<le> 1"
  using b64_u_bounds by (simp add: power_le_one)

lemma shrink_mono: "k \<le> k' \<Longrightarrow> (1 - b64_u) ^ k' \<le> (1 - b64_u) ^ k"
  using b64_u_bounds by (simp add: power_decreasing)

lemma shrink_bernoulli: "1 - real k * b64_u \<le> (1 - b64_u) ^ k"
  using Bernoulli_inequality [of "- b64_u" k] b64_u_bounds by simp

lemma shrink_half:
  assumes "k \<le> 100000"
  shows "1 / 2 \<le> (1 - b64_u) ^ k"
proof -
  have "real k * b64_u \<le> 100000 * b64_u"
    using assms b64_u_bounds by (intro mult_right_mono) simp_all
  also have "\<dots> \<le> 1 / 2" by (simp add: b64_u_def)
  finally show ?thesis using shrink_bernoulli [of k] by linarith
qed

lemma tracks_pos: "tracks k n x y \<Longrightarrow> 0 < x \<and> 0 < y"
proof -
  assume t: "tracks k n x y"
  then have "(0::real) < 1 / 2 ^ n" "1 / 2 ^ n \<le> x" by (simp_all add: tracks_def)
  then have x: "0 < x" by linarith
  then have "0 < x * (1 - b64_u) ^ k" using shrink_pos by simp
  with t x show ?thesis by (auto simp: tracks_def)
qed

lemma tracks_exact: "1 / 2 ^ n \<le> x \<Longrightarrow> x \<le> 2 ^ n \<Longrightarrow> tracks 0 n x x"
  by (simp add: tracks_def)

lemma tracks_mono:
  assumes "tracks k n x y" "k \<le> k'"
  shows "tracks k' n x y"
proof -
  from tracks_pos [OF assms(1)] have p: "0 < x" "0 < y" by simp_all
  have "x * (1 - b64_u) ^ k' \<le> x * (1 - b64_u) ^ k"
    using p shrink_mono [OF assms(2)] by (intro mult_left_mono) simp_all
  moreover have "y * (1 - b64_u) ^ k' \<le> y * (1 - b64_u) ^ k"
    using p shrink_mono [OF assms(2)] by (intro mult_left_mono) simp_all
  ultimately show ?thesis using assms(1) by (auto simp: tracks_def)
qed

lemma pow2_range_mult:
  fixes a b :: real
  assumes "1 / 2 ^ n \<le> a" "a \<le> 2 ^ n" "1 / 2 ^ m \<le> b" "b \<le> 2 ^ m"
  shows "1 / 2 ^ (n + m) \<le> a * b" "a * b \<le> 2 ^ (n + m)"
proof -
  have a: "0 < a" using assms(1) by (smt (verit) divide_pos_pos zero_less_power)
  have b: "0 < b" using assms(3) by (smt (verit) divide_pos_pos zero_less_power)
  have "(1 / 2 ^ n) * (1 / 2 ^ m) \<le> a * b"
    using assms a b by (intro mult_mono) simp_all
  then show "1 / 2 ^ (n + m) \<le> a * b" by (simp add: power_add)
  have "a * b \<le> 2 ^ n * 2 ^ m" using assms a b by (intro mult_mono) simp_all
  then show "a * b \<le> 2 ^ (n + m)" by (simp add: power_add)
qed

lemma pow2_range_inverse:
  fixes b :: real
  assumes "1 / 2 ^ m \<le> b" "b \<le> 2 ^ m"
  shows "1 / 2 ^ m \<le> 1 / b" "1 / b \<le> 2 ^ m"
proof -
  have b: "0 < b" using assms(1) by (smt (verit) divide_pos_pos zero_less_power)
  show "1 / 2 ^ m \<le> 1 / b" using assms b by (simp add: field_simps)
  show "1 / b \<le> 2 ^ m" using assms b by (simp add: field_simps)
qed

lemma tracks_mult:
  assumes "tracks k1 n1 a a'" "tracks k2 n2 b b'"
  shows "tracks (k1 + k2) (n1 + n2) (a * b) (a' * b')"
proof -
  from tracks_pos [OF assms(1)] tracks_pos [OF assms(2)]
  have p: "0 < a" "0 < a'" "0 < b" "0 < b'" by simp_all
  have r: "1 / 2 ^ (n1 + n2) \<le> a * b" "a * b \<le> 2 ^ (n1 + n2)"
    using pow2_range_mult [of n1 a n2 b] assms by (simp_all add: tracks_def)
  have s: "0 \<le> (1 - b64_u) ^ k1" "0 \<le> (1 - b64_u) ^ k2"
    using shrink_pos less_imp_le by blast+
  have nn: "0 \<le> a * (1 - b64_u) ^ k1" "0 \<le> b * (1 - b64_u) ^ k2"
    "0 \<le> a' * (1 - b64_u) ^ k1" "0 \<le> b' * (1 - b64_u) ^ k2"
    using p s by simp_all
  have ta: "a * (1 - b64_u) ^ k1 \<le> a'" "a' * (1 - b64_u) ^ k1 \<le> a"
    using assms(1) by (simp_all add: tracks_def)
  have tb: "b * (1 - b64_u) ^ k2 \<le> b'" "b' * (1 - b64_u) ^ k2 \<le> b"
    using assms(2) by (simp_all add: tracks_def)
  have "(a * (1 - b64_u) ^ k1) * (b * (1 - b64_u) ^ k2) \<le> a' * b'"
    using ta(1) tb(1) nn p by (intro mult_mono) simp_all
  then have lo: "a * b * (1 - b64_u) ^ (k1 + k2) \<le> a' * b'"
    by (simp add: power_add mult_ac)
  have "(a' * (1 - b64_u) ^ k1) * (b' * (1 - b64_u) ^ k2) \<le> a * b"
    using ta(2) tb(2) nn p by (intro mult_mono) simp_all
  then have hi: "a' * b' * (1 - b64_u) ^ (k1 + k2) \<le> a * b"
    by (simp add: power_add mult_ac)
  from r lo hi show ?thesis by (simp add: tracks_def)
qed

lemma tracks_inverse:
  assumes "tracks k n b b'"
  shows "tracks k n (1 / b) (1 / b')"
proof -
  from tracks_pos [OF assms] have p: "0 < b" "0 < b'" by simp_all
  have r: "1 / 2 ^ n \<le> 1 / b" "1 / b \<le> 2 ^ n"
    using pow2_range_inverse [of n b] assms by (simp_all add: tracks_def)
  have "b' * (1 - b64_u) ^ k \<le> b" using assms by (simp add: tracks_def)
  then have lo: "1 / b * (1 - b64_u) ^ k \<le> 1 / b'" using p by (simp add: field_simps)
  have "b * (1 - b64_u) ^ k \<le> b'" using assms by (simp add: tracks_def)
  then have hi: "1 / b' * (1 - b64_u) ^ k \<le> 1 / b" using p by (simp add: field_simps)
  from r lo hi show ?thesis by (simp add: tracks_def)
qed

lemma tracks_divide:
  assumes "tracks k1 n1 a a'" "tracks k2 n2 b b'"
  shows "tracks (k1 + k2) (n1 + n2) (a / b) (a' / b')"
  using tracks_mult [OF assms(1) tracks_inverse [OF assms(2)]] by simp

lemma tracks_power2:
  assumes "tracks k n a a'"
  shows "tracks (k + k) (n + n) (a\<^sup>2) (a'\<^sup>2)"
  using tracks_mult [OF assms assms] by (simp add: power2_eq_square)

lemma tracks_sqrt:
  assumes "tracks k n a a'"
  shows "tracks k n (sqrt a) (sqrt a')"
proof -
  from tracks_pos [OF assms] have p: "0 < a" "0 < a'" by simp_all
  let ?s = "(1 - b64_u) ^ k"
  have s: "0 < ?s" "?s \<le> 1" using shrink_pos shrink_le_one by simp_all
  have ss: "?s \<le> sqrt ?s"
  proof -
    have "?s * ?s \<le> ?s * 1" using s by (intro mult_left_mono) simp_all
    then have "?s\<^sup>2 \<le> ?s" by (simp add: power2_eq_square)
    then have "sqrt (?s\<^sup>2) \<le> sqrt ?s" by (rule real_sqrt_le_mono)
    then show ?thesis using s by simp
  qed
  have "1 / 2 ^ n \<le> a" "a \<le> 2 ^ n" using assms by (simp_all add: tracks_def)
  have lo_r: "1 / 2 ^ n \<le> sqrt a"
  proof (cases "a \<le> 1")
    case True
    then have "sqrt a \<le> 1" by simp
    then have "sqrt a * sqrt a \<le> sqrt a * 1" using p by (intro mult_left_mono) simp_all
    then have "a \<le> sqrt a" using p by simp
    with \<open>1 / 2 ^ n \<le> a\<close> show ?thesis by linarith
  next
    case False
    then have "1 \<le> sqrt a" by simp
    moreover have "1 / 2 ^ n \<le> (1::real)" by simp
    ultimately show ?thesis by linarith
  qed
  have hi_r: "sqrt a \<le> 2 ^ n"
  proof (cases "a \<le> 1")
    case True
    then have "sqrt a \<le> 1" by simp
    moreover have "(1::real) \<le> 2 ^ n" by simp
    ultimately show ?thesis by linarith
  next
    case False
    then have "1 \<le> sqrt a" by simp
    then have "sqrt a * 1 \<le> sqrt a * sqrt a" by (intro mult_left_mono) simp_all
    then have "sqrt a \<le> a" using p by simp
    with \<open>a \<le> 2 ^ n\<close> show ?thesis by linarith
  qed
  have "sqrt (a * ?s) \<le> sqrt a'" using assms by (simp add: tracks_def)
  then have "sqrt a * sqrt ?s \<le> sqrt a'" by (simp add: real_sqrt_mult)
  moreover have "sqrt a * ?s \<le> sqrt a * sqrt ?s" using ss p by (intro mult_left_mono) simp_all
  ultimately have lo: "sqrt a * ?s \<le> sqrt a'" by linarith
  have "sqrt (a' * ?s) \<le> sqrt a" using assms by (simp add: tracks_def)
  then have "sqrt a' * sqrt ?s \<le> sqrt a" by (simp add: real_sqrt_mult)
  moreover have "sqrt a' * ?s \<le> sqrt a' * sqrt ?s" using ss p by (intro mult_left_mono) simp_all
  ultimately have hi: "sqrt a' * ?s \<le> sqrt a" by linarith
  from lo_r hi_r lo hi show ?thesis by (simp add: tracks_def)
qed

lemma tracks_add:
  assumes "tracks k n1 a a'" "tracks k n2 b b'" "n1 \<le> n" "n2 \<le> n"
  shows "tracks k (Suc n) (a + b) (a' + b')"
proof -
  from tracks_pos [OF assms(1)] tracks_pos [OF assms(2)]
  have p: "0 < a" "0 < a'" "0 < b" "0 < b'" by simp_all
  have an: "1 / 2 ^ n \<le> 1 / (2::real) ^ n1" "(2::real) ^ n1 \<le> 2 ^ n" "(2::real) ^ n2 \<le> 2 ^ n"
    using assms(3,4) by (simp_all add: field_simps power_increasing)
  have ra: "1 / 2 ^ n1 \<le> a" "a \<le> 2 ^ n1" and rb: "b \<le> 2 ^ n2"
    using assms(1,2) by (simp_all add: tracks_def)
  have "1 / 2 ^ Suc n \<le> 1 / (2::real) ^ n" by (simp add: field_simps)
  then have lo_r: "1 / 2 ^ Suc n \<le> a + b"
    using an(1) ra(1) p by linarith
  have "(2::real) ^ Suc n = 2 ^ n + 2 ^ n" by simp
  then have hi_r: "a + b \<le> 2 ^ Suc n"
    using an(2,3) ra(2) rb by linarith
  have lo: "(a + b) * (1 - b64_u) ^ k \<le> a' + b'"
    using assms(1,2) by (simp add: tracks_def algebra_simps) 
  have hi: "(a' + b') * (1 - b64_u) ^ k \<le> a + b"
    using assms(1,2) by (simp add: tracks_def algebra_simps)
  from lo_r hi_r lo hi show ?thesis by (simp add: tracks_def)
qed

lemma tracks_window:
  assumes "tracks k n x y" "k \<le> 100000" "n \<le> 1000"
  shows "1 / 2 ^ 1022 \<le> \<bar>y\<bar>" "\<bar>y\<bar> \<le> 2 ^ 1023"
proof -
  from tracks_pos [OF assms(1)] have p: "0 < x" "0 < y" by simp_all
  let ?s = "(1 - b64_u) ^ k"
  have s: "1 / 2 \<le> ?s" by (rule shrink_half [OF assms(2)])
  have t: "1 / 2 ^ n \<le> x" "x \<le> 2 ^ n" "x * ?s \<le> y" "y * ?s \<le> x"
    using assms(1) by (simp_all add: tracks_def)
  have "(2::real) ^ Suc n \<le> 2 ^ 1022" using assms(3) by (intro power_increasing) simp_all
  then have a: "1 / 2 ^ 1022 \<le> 1 / (2::real) ^ Suc n"
    by (intro divide_left_mono) simp_all
  have "1 / 2 ^ n * (1 / 2) \<le> x * ?s" using t(1) s p by (intro mult_mono) simp_all
  then have "1 / 2 ^ Suc n \<le> y" using t(3) by simp
  with a have "1 / 2 ^ 1022 \<le> y" by (rule order_trans)
  then show "1 / 2 ^ 1022 \<le> \<bar>y\<bar>" unfolding abs_of_pos [OF p(2)] .
  have "y * (1 / 2) \<le> y * ?s" using s p by (intro mult_left_mono) simp_all
  then have "y \<le> 2 * x" using t(4) by simp
  then have "y \<le> 2 ^ Suc n" using t(2) by simp
  moreover have "(2::real) ^ Suc n \<le> 2 ^ 1023" using assms(3) by (intro power_increasing) simp_all
  ultimately have "y \<le> 2 ^ 1023" by (rule order_trans)
  then show "\<bar>y\<bar> \<le> 2 ^ 1023" unfolding abs_of_pos [OF p(2)] .
qed

lemma tracks_round:
  assumes "tracks k n x y" "k \<le> 100000" "n \<le> 1000"
  shows "\<exists>z. b64_round y = Fin z \<and> tracks (Suc k) n x z"
proof -
  from tracks_pos [OF assms(1)] have p: "0 < x" "0 < y" by simp_all
  let ?s = "(1 - b64_u) ^ k"
  have s: "0 < ?s" by (rule shrink_pos)
  have t: "1 / 2 ^ n \<le> x" "x \<le> 2 ^ n" "x * ?s \<le> y" "y * ?s \<le> x"
    using assms(1) by (simp_all add: tracks_def)
  from b64_round_normal [OF tracks_window [OF assms]]
  obtain z where z: "b64_round y = Fin z" "\<bar>z - y\<bar> \<le> \<bar>y\<bar> / 2 ^ 53" by blast
  have e: "\<bar>z - y\<bar> \<le> y * b64_u" using z(2) p by (simp add: b64_u_def)
  have lo1: "y * (1 - b64_u) \<le> z" using e by (simp add: algebra_simps abs_le_iff)
  have hi1: "z \<le> y * (1 + b64_u)" using e by (simp add: algebra_simps abs_le_iff)
  have "x * ?s * (1 - b64_u) \<le> y * (1 - b64_u)"
    using t(3) b64_u_bounds by (intro mult_right_mono) simp_all
  then have lo: "x * (1 - b64_u) ^ Suc k \<le> z" using lo1 by (simp add: mult_ac)
  have "z * (1 - b64_u) \<le> y * (1 + b64_u) * (1 - b64_u)"
    using hi1 b64_u_bounds by (intro mult_right_mono) simp_all
  also have "\<dots> = y - y * b64_u\<^sup>2" by (simp add: algebra_simps power2_eq_square)
  also have "\<dots> \<le> y" using p by simp
  finally have "z * (1 - b64_u) \<le> y" .
  then have "z * (1 - b64_u) * ?s \<le> y * ?s" using s by (intro mult_right_mono) simp_all
  then have hi: "z * (1 - b64_u) ^ Suc k \<le> x" using t(4) by (simp add: mult_ac)
  from t(1,2) lo hi have "tracks (Suc k) n x z" by (simp add: tracks_def)
  with z(1) show ?thesis by blast
qed

lemma tracks_tolerance:
  assumes "tracks k n x y" "k \<le> 64"
  shows "\<bar>y - x\<bar> \<le> x / 2 ^ 46"
proof -
  from tracks_pos [OF assms(1)] have p: "0 < x" "0 < y" by simp_all
  let ?s = "(1 - b64_u) ^ k"
  have "real k * b64_u \<le> 64 * b64_u" using assms(2) b64_u_bounds by (intro mult_right_mono) simp_all
  also have "\<dots> = 1 / 2 ^ 47" by (simp add: b64_u_def)
  finally have s: "1 - 1 / 2 ^ 47 \<le> ?s" using shrink_bernoulli [of k] by linarith
  have t: "x * ?s \<le> y" "y * ?s \<le> x" using assms(1) by (simp_all add: tracks_def)
  have "x * (1 - 1 / 2 ^ 47) \<le> x * ?s" using s p by (intro mult_left_mono) simp_all
  then have lo: "x - x / 2 ^ 47 \<le> y" using t(1) by (simp add: algebra_simps)
  have "y * (1 - 1 / 2 ^ 47) \<le> y * ?s" using s p by (intro mult_left_mono) simp_all
  then have "y * (1 - 1 / 2 ^ 47) \<le> x" using t(2) by linarith
  then have "y * (1 - 1 / 2 ^ 47) * (1 + 1 / 2 ^ 46) \<le> x * (1 + 1 / 2 ^ 46)"
    by (intro mult_right_mono) simp_all
  moreover have "y \<le> y * ((1 - 1 / 2 ^ 47) * (1 + 1 / 2 ^ 46))"
  proof -
    have "(1::real) \<le> (1 - 1 / 2 ^ 47) * (1 + 1 / 2 ^ 46)" by simp
    then have "y * 1 \<le> y * ((1 - 1 / 2 ^ 47) * (1 + 1 / 2 ^ 46))"
      using p by (intro mult_left_mono) simp_all
    then show ?thesis by simp
  qed
  ultimately have hi: "y \<le> x + x / 2 ^ 46" by (simp add: algebra_simps)
  have "x / 2 ^ 47 \<le> x / 2 ^ 46" using p by (simp add: field_simps)
  with lo hi have "y - x \<le> x / 2 ^ 46" "- (y - x) \<le> x / 2 ^ 46" by linarith+
  then show ?thesis by (rule abs_leI)
qed

lemma tracks_widen:
  assumes "tracks k n x y" "n \<le> n'"
  shows "tracks k n' x y"
proof -
  have t: "1 / 2 ^ n \<le> x" "x \<le> 2 ^ n" using assms(1) by (simp_all add: tracks_def)
  have up: "(2::real) ^ n \<le> 2 ^ n'" using assms(2) by (intro power_increasing) simp_all
  then have "1 / (2::real) ^ n' \<le> 1 / 2 ^ n" by (intro divide_left_mono) simp_all
  with t(1) have lo: "1 / 2 ^ n' \<le> x" by linarith
  from t(2) up have hi: "x \<le> 2 ^ n'" by linarith
  from lo hi assms(1) show ?thesis by (simp add: tracks_def)
qed

lemma tracks_round_to:
  assumes "tracks k n x y" "k < k'" "k' \<le> 100000" "n \<le> n'" "n' \<le> 1000"
  shows "\<exists>z. b64_round y = Fin z \<and> tracks k' n' x z"
proof -
  have "k \<le> 100000" "n \<le> 1000" using assms by simp_all
  from tracks_round [OF assms(1) this] obtain z where
    z: "b64_round y = Fin z" "tracks (Suc k) n x z" by blast
  have "Suc k \<le> k'" using assms(2) by simp
  from tracks_widen [OF tracks_mono [OF z(2) this] assms(4)] z(1) show ?thesis by blast
qed

lemma mul64_tracks:
  assumes "tracks k1 n1 a a'" "tracks k2 n2 b b'"
    and "k1 + k2 < k" "k \<le> 100000" "n1 + n2 \<le> n" "n \<le> 1000"
  shows "\<exists>z. mul64 (Fin a') (Fin b') = Fin z \<and> tracks k n (a * b) z"
  using tracks_round_to [OF tracks_mult [OF assms(1,2)] assms(3-6)] by (simp add: mul64_def)

lemma div64_tracks:
  assumes "tracks k1 n1 a a'" "tracks k2 n2 b b'"
    and "k1 + k2 < k" "k \<le> 100000" "n1 + n2 \<le> n" "n \<le> 1000"
  shows "\<exists>z. div64 (Fin a') (Fin b') = Fin z \<and> tracks k n (a / b) z"
proof -
  have "b' \<noteq> 0" using tracks_pos [OF assms(2)] by simp
  then show ?thesis
    using tracks_round_to [OF tracks_divide [OF assms(1,2)] assms(3-6)] by (simp add: div64_def)
qed

lemma sqrt64_tracks:
  assumes "tracks k1 n1 a a'" "k1 < k" "k \<le> 100000" "n1 \<le> n" "n \<le> 1000"
  shows "\<exists>z. sqrt64 (Fin a') = Fin z \<and> tracks k n (sqrt a) z"
proof -
  have "\<not> a' < 0" using tracks_pos [OF assms(1)] by simp
  then show ?thesis
    using tracks_round_to [OF tracks_sqrt [OF assms(1)] assms(2-5)] by (simp add: sqrt64_def)
qed

lemma pow64_2_tracks:
  assumes "tracks k1 n1 a a'" "k1 + k1 < k" "k \<le> 100000" "n1 + n1 \<le> n" "n \<le> 1000"
  shows "\<exists>z. pow64 (Fin a') 2 = Fin z \<and> tracks k n (a\<^sup>2) z"
  using tracks_round_to [OF tracks_power2 [OF assms(1)] assms(2-5)] by (simp add: pow64_def)

lemma add64_tracks:
  assumes "tracks k1 n1 a a'" "tracks k1 n2 b b'"
    and "k1 < k" "k \<le> 100000" "n1 < n" "n2 < n" "n \<le> 1000"
  shows "\<exists>z. add64 (Fin a') (Fin b') = Fin z \<and> tracks k n (a + b) z"
proof -
  have "n1 \<le> max n1 n2" "n2 \<le> max n1 n2" "Suc (max n1 n2) \<le> n" using assms(5,6) by simp_all
  from tracks_round_to [OF tracks_add [OF assms(1,2) this(1,2)] assms(3,4) this(3) assms(7)]
  show ?thesis by (simp add: add64_def)
qed

lemma tracks_sqrt_half:
  assumes "tracks k (m + m) a a'"
  shows "tracks k m (sqrt a) (sqrt a')"
proof -
  have t: "1 / 2 ^ (m + m) \<le> a" "a \<le> 2 ^ (m + m)" using assms by (simp_all add: tracks_def)
  have "sqrt (1 / 2 ^ (m + m)) \<le> sqrt a" using t(1) by (rule real_sqrt_le_mono)
  moreover have "sqrt (1 / 2 ^ (m + m)) = 1 / (2::real) ^ m"
    by (simp add: real_sqrt_divide power_add real_sqrt_mult)
  ultimately have lo: "1 / 2 ^ m \<le> sqrt a" by simp
  have "sqrt a \<le> sqrt (2 ^ (m + m))" using t(2) by (rule real_sqrt_le_mono)
  moreover have "sqrt (2 ^ (m + m)) = (2::real) ^ m"
    by (simp add: power_add real_sqrt_mult)
  ultimately have hi: "sqrt a \<le> 2 ^ m" by simp
  from tracks_sqrt [OF assms] lo hi show ?thesis by (simp add: tracks_def)
qed

lemma sqrt64_tracks_half:
  assumes "tracks k1 (m + m) a a'" "k1 < k" "k \<le> 100000" "m \<le> n" "n \<le> 1000"
  shows "\<exists>z. sqrt64 (Fin a') = Fin z \<and> tracks k n (sqrt a) z"
proof -
  have "\<not> a' < 0" using tracks_pos [OF assms(1)] by simp
  then show ?thesis
    using tracks_round_to [OF tracks_sqrt_half [OF assms(1)] assms(2-5)]
    by (simp add: sqrt64_def)
qed

section \<open>Time to a target SNR\<close>

lemma tracks_input: "in_band n x \<Longrightarrow> tracks 0 n x x"
  by (simp add: in_band_def tracks_def)

lemma tracks_two: "tracks 0 1 2 2"
  by (simp add: tracks_def)

lemma tracks_one: "tracks 0 0 1 1"
  by (simp add: tracks_def)

lemma mul64_zero_left: "mul64 (Fin 0) (Fin y) = Fin 0"
  by (simp add: mul64_def b64_round_zero)

lemma mul64_zero_right: "mul64 (Fin x) (Fin 0) = Fin 0"
  by (simp add: mul64_def b64_round_zero)

text \<open>
  The quotient \<open>target_snr / snr_per_readout\<close>: seven roundings after the inputs, for
  inputs whose magnitudes leave every intermediate value a normal number.
\<close>

lemma snr_quotient_tracks:
  assumes "in_band nr rate" "in_band nt rt" "in_band nc c" "in_band ng target"
    and "nr + nt \<le> m + m" "m + m \<le> 1000" "m + nc + ng + 1 \<le> n" "n \<le> 1000"
  shows "\<exists>q. div64 (Fin target)
                 (div64 (mul64 (mul64 (Fin c) (sqrt64 (mul64 (Fin rate) (Fin rt)))) (Fin 1))
                    (sqrt64 (Fin 2))) = Fin q
           \<and> tracks 7 n (target / (c * sqrt (rate * rt) * 1 / sqrt 2)) q"
proof -
  note i = assms(1-4) [THEN tracks_input]
  note b = assms(5-8)
  obtain p where p: "mul64 (Fin rate) (Fin rt) = Fin p" "tracks 1 (m + m) (rate * rt) p"
    using mul64_tracks [OF i(1) i(2), of 1 "m + m"] b by auto
  obtain s where s: "sqrt64 (Fin p) = Fin s" "tracks 2 m (sqrt (rate * rt)) s"
    using sqrt64_tracks_half [OF p(2), of 2 m] b by auto
  obtain a where a: "mul64 (Fin c) (Fin s) = Fin a" "tracks 3 (m + nc) (c * sqrt (rate * rt)) a"
    using mul64_tracks [OF i(3) s(2), of 3 "m + nc"] b by auto
  obtain a1 where a1: "mul64 (Fin a) (Fin 1) = Fin a1"
      "tracks 4 (m + nc) (c * sqrt (rate * rt) * 1) a1"
    using mul64_tracks [OF a(2) tracks_one, of 4 "m + nc"] b by auto
  obtain r2 where r2: "sqrt64 (Fin 2) = Fin r2" "tracks 1 1 (sqrt 2) r2"
    using sqrt64_tracks [OF tracks_two, of 1 1] by auto
  obtain snr where snr: "div64 (Fin a1) (Fin r2) = Fin snr"
      "tracks 6 (m + nc + 1) (c * sqrt (rate * rt) * 1 / sqrt 2) snr"
    using div64_tracks [OF a1(2) r2(2), of 6 "m + nc + 1"] b by auto
  obtain q where q: "div64 (Fin target) (Fin snr) = Fin q"
      "tracks 7 n (target / (c * sqrt (rate * rt) * 1 / sqrt 2)) q"
    using div64_tracks [OF i(4) snr(2), of 7 n] b by auto
  show ?thesis
    unfolding p(1) s(1) a(1) a1(1) r2(1) snr(1) q(1) using q(2) by blast
qed

lemma n_readouts_tracks:
  assumes "in_band 100 rate" "in_band 100 rt" "in_band 100 c" "in_band 100 target"
  shows "\<exists>n. pow64 (div64 (Fin target)
                 (div64 (mul64 (mul64 (Fin c) (sqrt64 (mul64 (Fin rate) (Fin rt)))) (Fin 1))
                    (sqrt64 (Fin 2)))) 2 = Fin n
           \<and> tracks 15 602 (readouts_exact rate rt c target) n"
proof -
  from snr_quotient_tracks [OF assms, of 100 301] obtain q where
    q: "div64 (Fin target)
          (div64 (mul64 (mul64 (Fin c) (sqrt64 (mul64 (Fin rate) (Fin rt)))) (Fin 1))
             (sqrt64 (Fin 2))) = Fin q"
      "tracks 7 301 (target / (c * sqrt (rate * rt) * 1 / sqrt 2)) q"
    by auto
  obtain n where n: "pow64 (Fin q) 2 = Fin n"
      "tracks 15 602 ((target / (c * sqrt (rate * rt) * 1 / sqrt 2))\<^sup>2) n"
    using pow64_2_tracks [OF q(2), of 15 602] by auto
  show ?thesis unfolding q(1) readouts_exact_def using n by blast
qed

lemma calculate_time_to_snr_unfold:
  "calculate_time_to_snr (mk_params rate rt c) (Fin evo) (Fin target) =
     add64 (mul64 (Fin evo)
              (pow64 (div64 (Fin target)
                 (div64 (mul64 (mul64 (Fin c) (sqrt64 (mul64 (Fin rate) (Fin rt)))) (Fin 1))
                    (sqrt64 (Fin 2)))) 2))
           (mul64 (pow64 (div64 (Fin target)
                 (div64 (mul64 (mul64 (Fin c) (sqrt64 (mul64 (Fin rate) (Fin rt)))) (Fin 1))
                    (sqrt64 (Fin 2)))) 2) (Fin rt))"
  by (simp add: calculate_time_to_snr_def photons_per_readout_def Let_def)

lemma calculate_time_to_snr_tracks:
  assumes "in_band 100 rate" "in_band 100 rt" "in_band 100 c" "in_band 100 target"
    and "evo = 0 \<or> in_band 100 evo"
  shows "\<exists>v. calculate_time_to_snr (mk_params rate rt c) (Fin evo) (Fin target) = Fin v
           \<and> tracks 17 703 (readouts_exact rate rt c target * (evo + rt)) v"
proof -
  let ?N = "readouts_exact rate rt c target"
  from n_readouts_tracks [OF assms(1-4)] obtain n where
    n: "pow64 (div64 (Fin target)
                 (div64 (mul64 (mul64 (Fin c) (sqrt64 (mul64 (Fin rate) (Fin rt)))) (Fin 1))
                    (sqrt64 (Fin 2)))) 2 = Fin n"
      "tracks 15 602 ?N n"
    by blast
  note rt = assms(2) [THEN tracks_input]
  obtain acq where acq: "mul64 (Fin n) (Fin rt) = Fin acq" "tracks 16 702 (?N * rt) acq"
    using mul64_tracks [OF n(2) rt, of 16 702] by auto
  show ?thesis
  proof (cases "evo = 0")
    case True
    have "add64 (Fin 0) (Fin acq) = b64_round acq" by (simp add: add64_def)
    moreover obtain v where "b64_round acq = Fin v" "tracks 17 703 (?N * rt) v"
      using tracks_round_to [OF acq(2), of 17 703] by auto
    ultimately show ?thesis
      unfolding calculate_time_to_snr_unfold n(1) acq(1) True mul64_zero_left by simp
  next
    case False
    then have "in_band 100 evo" using assms(5) by simp
    note ev = this [THEN tracks_input]
    obtain en where en: "mul64 (Fin evo) (Fin n) = Fin en" "tracks 16 702 (evo * ?N) en"
      using mul64_tracks [OF ev n(2), of 16 702] by auto
    obtain v where v: "add64 (Fin en) (Fin acq) = Fin v" "tracks 17 703 (evo * ?N + ?N * rt) v"
      using add64_tracks [OF en(2) acq(2), of 17 703] by auto
    have "evo * ?N + ?N * rt = ?N * (evo + rt)" by (simp add: algebra_simps)
    with v show ?thesis
      unfolding calculate_time_to_snr_unfold n(1) acq(1) en(1) by simp
  qed
qed

lemma readouts_exact_spec:
  "readouts_exact rate rt c target * (evo + rt) = timeToTargetSNR_spec rate rt c evo target"
  by (simp add: readouts_exact_def timeToTargetSNR_spec_def Let_def)

lemma round_half_even_minus: "round_half_even (- m) = - round_half_even m"
proof (cases "m = of_int \<lfloor>m\<rfloor>")
  case True
  then obtain k where k: "m = of_int k" ..
  have "- m = of_int (- k)" using k by simp
  then have "round_half_even (- m) = - k" by (simp only: round_half_even_of_int)
  then show ?thesis using k by (simp add: round_half_even_of_int)
next
  case False
  let ?n = "\<lfloor>m\<rfloor>"
  have lt: "of_int ?n < m" using False by (metis floor_correct less_eq_real_def)
  have c: "real_of_int (- ?n - 1) = - of_int ?n - 1" by simp
  have fl: "\<lfloor>- m\<rfloor> = - ?n - 1"
  proof (rule floor_unique)
    show "of_int (- ?n - 1) \<le> - m"
      unfolding c using real_of_int_floor_add_one_gt [of m] by linarith
    show "- m < of_int (- ?n - 1) + 1" unfolding c using lt by linarith
  qed
  have ev: "even (- ?n - 1) \<longleftrightarrow> odd ?n" by simp
  show ?thesis
    unfolding round_half_even_def Let_def fl ev using lt by (auto simp: algebra_simps)
qed

lemma b64_nearest_minus: "b64_nearest (- x) = - b64_nearest x"
proof -
  have "b64_ulp (- x) = b64_ulp x" by (simp add: b64_ulp_def b64_exponent_def)
  then show ?thesis by (simp add: b64_nearest_def round_half_even_minus)
qed

lemma b64_round_minus: "b64_round (- x) = fneg (b64_round x)"
  by (simp add: b64_round_def Let_def b64_nearest_minus del: power_numeral)
    (auto simp: b64_nearest_def)

lemma b64_not_finite: "\<not> is_finite x \<Longrightarrow> b64 x = x"
  by (cases x) simp_all

lemma fmul_not_finite_left: "\<not> is_finite x \<Longrightarrow> \<not> is_finite (fmul x y)"
  by (cases x; cases y) (simp_all add: signed_inf_def)

lemma fmul_not_finite_right: "\<not> is_finite y \<Longrightarrow> \<not> is_finite (fmul x y)"
  by (cases x; cases y) (simp_all add: signed_inf_def)

lemma fadd_not_finite_left: "\<not> is_finite x \<Longrightarrow> \<not> is_finite (fadd x y)"
  by (cases x; cases y) simp_all

lemma fpow_not_finite: "\<not> is_finite x \<Longrightarrow> 0 < n \<Longrightarrow> \<not> is_finite (fpow x n)"
  by (cases x) simp_all

lemma mul64_not_finite_left: "\<not> is_finite x \<Longrightarrow> \<not> is_finite (mul64 x y)"
  using fmul_not_finite_left [of x y] by (simp add: mul64_def b64_not_finite)

lemma mul64_not_finite_right: "\<not> is_finite y \<Longrightarrow> \<not> is_finite (mul64 x y)"
  using fmul_not_finite_right [of y x] by (simp add: mul64_def b64_not_finite)

lemma add64_not_finite_left: "\<not> is_finite x \<Longrightarrow> \<not> is_finite (add64 x y)"
  using fadd_not_finite_left [of x y] by (simp add: add64_def b64_not_finite)

lemma pow64_not_finite: "\<not> is_finite x \<Longrightarrow> 0 < n \<Longrightarrow> \<not> is_finite (pow64 x n)"
  using fpow_not_finite [of x n] by (simp add: pow64_def b64_not_finite)

text \<open>A value that is zero or NaN stays so through the products and the quotient.\<close>

lemma sqrt64_nonpos:
  assumes "x \<le> 0"
  shows "sqrt64 (b64_round x) = Fin 0 \<or> sqrt64 (b64_round x) = NaN"
proof -
  from b64_round_nonpos [OF assms] consider "b64_round x = NInf"
    | y where "y \<le> 0" "b64_round x = Fin y" by blast
  then show ?thesis
  proof cases
    case 1
    then show ?thesis by (simp add: sqrt64_def)
  next
    case 2
    then show ?thesis by (cases "y = 0") (simp_all add: sqrt64_def b64_round_zero)
  qed
qed

lemma mul64_zero_or_nan:
  assumes "s = Fin 0 \<or> s = NaN"
  shows "mul64 (Fin c) s = Fin 0 \<or> mul64 (Fin c) s = NaN"
  using assms by (auto simp: mul64_def b64_round_zero)

lemma mul64_zero_any: "mul64 (Fin 0) s = Fin 0 \<or> mul64 (Fin 0) s = NaN"
  by (cases s) (simp_all add: mul64_def b64_round_zero signed_inf_def)

lemma mul64_one_zero_or_nan:
  assumes "a = Fin 0 \<or> a = NaN"
  shows "mul64 a (Fin 1) = Fin 0 \<or> mul64 a (Fin 1) = NaN"
  using assms by (auto simp: mul64_def b64_round_zero)

lemma sqrt64_two: "\<exists>r. 0 < r \<and> sqrt64 (Fin 2) = Fin r"
  using sqrt64_tracks [OF tracks_two, of 1 1] tracks_pos by auto

lemma div64_zero_or_nan:
  assumes "a = Fin 0 \<or> a = NaN" "0 < r"
  shows "div64 a (Fin r) = Fin 0 \<or> div64 a (Fin r) = NaN"
  using assms by (auto simp: div64_def b64_round_zero)

lemma div64_by_zero_or_nan:
  assumes "s = Fin 0 \<or> s = NaN"
  shows "\<not> is_finite (div64 (Fin t) s)"
  using assms by (auto simp: div64_def signed_inf_def split: if_splits)

lemma zero_snr_not_finite:
  assumes "a = Fin 0 \<or> a = NaN"
  shows "\<not> is_finite
           (add64 (mul64 (Fin evo)
              (pow64 (div64 (Fin target) (div64 (mul64 a (Fin 1)) (sqrt64 (Fin 2)))) 2))
            (mul64 (pow64 (div64 (Fin target) (div64 (mul64 a (Fin 1)) (sqrt64 (Fin 2)))) 2)
               (Fin rt)))"
proof -
  from sqrt64_two obtain r where r: "0 < r" "sqrt64 (Fin 2) = Fin r" by blast
  note div64_zero_or_nan [OF mul64_one_zero_or_nan [OF assms] r(1)]
  note div64_by_zero_or_nan [OF this, of target]
  note pow64_not_finite [OF this, of 2]
  then have "\<not> is_finite
      (pow64 (div64 (Fin target) (div64 (mul64 a (Fin 1)) (sqrt64 (Fin 2)))) 2)"
    unfolding r(2) by simp
  then show ?thesis by (intro add64_not_finite_left mul64_not_finite_right)
qed

lemma calculate_time_to_snr_zero_snr:
  assumes "c = 0 \<or> rate * rt \<le> 0"
  shows "\<not> is_finite (calculate_time_to_snr (mk_params rate rt c) (Fin evo) (Fin target))"
proof -
  have "mul64 (Fin c) (sqrt64 (mul64 (Fin rate) (Fin rt))) = Fin 0
      \<or> mul64 (Fin c) (sqrt64 (mul64 (Fin rate) (Fin rt))) = NaN"
  proof (cases "c = 0")
    case True
    then show ?thesis using mul64_zero_any by simp
  next
    case False
    then have "rate * rt \<le> 0" using assms by simp
    from sqrt64_nonpos [OF this] have "sqrt64 (mul64 (Fin rate) (Fin rt)) = Fin 0
       \<or> sqrt64 (mul64 (Fin rate) (Fin rt)) = NaN" by (simp add: mul64_def)
    then show ?thesis by (rule mul64_zero_or_nan)
  qed
  from zero_snr_not_finite [OF this] show ?thesis
    unfolding calculate_time_to_snr_unfold .
qed

text \<open>
  Claim C3, amended.  The function raises nothing; when the contrast, the count rate or
  the readout time is zero, or the photons per readout are negative, the value it returns
  is an infinity or NaN, never a finite number.
\<close>

theorem time_to_snr_invalid_not_finite:
  assumes "c = 0 \<or> rate = 0 \<or> rt = 0 \<or> rate * rt < 0"
  shows "\<not> is_finite (calculate_time_to_snr (mk_params rate rt c) (Fin evo) (Fin target))"
proof -
  have "c = 0 \<or> rate * rt \<le> 0" using assms by auto
  then show ?thesis by (rule calculate_time_to_snr_zero_snr)
qed

theorem time_to_snr_invalid_not_finite_witness:
  "\<not> is_finite (calculate_time_to_snr (mk_params 50000 (1/1000000) 0) (Fin 0) (Fin 5))
   \<and> \<not> is_finite (calculate_time_to_snr (mk_params 0 (1/1000000) (3/10)) (Fin 0) (Fin 5))"
  using time_to_snr_invalid_not_finite [of 0 50000 "1/1000000" 0 5]
    time_to_snr_invalid_not_finite [of "3/10" 0 "1/1000000" 0 5]
  by simp

lemma mul64_minus_right: "mul64 (Fin a) (Fin (- b)) = fneg (mul64 (Fin a) (Fin b))"
  using b64_round_minus [of "a * b"] by (simp add: mul64_def)

lemma mul64_minus_minus: "mul64 (Fin (- a)) (Fin (- b)) = mul64 (Fin a) (Fin b)"
  by (simp add: mul64_def)

lemma zero_snr_zero_evolution_nan:
  assumes "a = Fin 0 \<or> a = NaN"
  shows "add64 (mul64 (Fin 0)
              (pow64 (div64 (Fin target) (div64 (mul64 a (Fin 1)) (sqrt64 (Fin 2)))) 2))
            (mul64 (pow64 (div64 (Fin target) (div64 (mul64 a (Fin 1)) (sqrt64 (Fin 2)))) 2)
               (Fin rt)) = NaN"
proof -
  from sqrt64_two obtain r where r: "0 < r" "sqrt64 (Fin 2) = Fin r" by blast
  let ?n = "pow64 (div64 (Fin target) (div64 (mul64 a (Fin 1)) (Fin r))) 2"
  from div64_zero_or_nan [OF mul64_one_zero_or_nan [OF assms] r(1)]
  have "?n = PInf \<or> ?n = NaN"
    by (auto simp: div64_def pow64_def signed_inf_def)
  then have "mul64 (Fin 0) ?n = NaN" by (auto simp: mul64_def signed_inf_def)
  then show ?thesis unfolding r(2) by (simp add: add64_def)
qed

lemma pow64_2_overflow:
  assumes "tracks k n x y" "k \<le> 100000" "2 ^ 513 \<le> x"
  shows "pow64 (Fin y) 2 = PInf"
proof -
  from tracks_pos [OF assms(1)] have p: "0 < x" "0 < y" by simp_all
  have "x * (1 / 2) \<le> x * (1 - b64_u) ^ k"
    using shrink_half [OF assms(2)] p by (intro mult_left_mono) simp_all
  moreover have "x * (1 - b64_u) ^ k \<le> y" using assms(1) by (simp add: tracks_def)
  moreover have "2 ^ 513 * (1 / 2) \<le> x * (1 / 2)" using assms(3) by (intro mult_right_mono) simp_all
  moreover have "(2::real) ^ 513 * (1 / 2) = 2 ^ 512" by simp
  ultimately have y: "2 ^ 512 \<le> y" by linarith
  have "(2::real) ^ 512 * 2 ^ 512 \<le> y * y" using y by (intro mult_mono) simp_all
  moreover have "(2::real) ^ 512 * 2 ^ 512 = 2 ^ 1024" by simp
  ultimately have "2 ^ 1024 \<le> y\<^sup>2" by (simp only: power2_eq_square)
  then show ?thesis by (simp only: pow64_def fpow.simps b64.simps b64_round_overflow)
qed

lemma quotient_large:
  fixes c rate rt target :: real
  assumes "0 < c" "0 < rate * rt" "c * sqrt (rate * rt) \<le> 1 / 2 ^ 513" "1 \<le> target"
  shows "2 ^ 513 \<le> target / (c * sqrt (rate * rt) * 1 / sqrt 2)"
proof -
  let ?D = "c * sqrt (rate * rt)"
  have D: "0 < ?D" using assms(1,2) by simp
  have "(1::real) \<le> sqrt 2" by simp
  then have "1 * 1 \<le> target * sqrt 2" using assms(4) by (intro mult_mono) simp_all
  moreover have "2 ^ 513 * ?D \<le> 2 ^ 513 * (1 / 2 ^ 513)"
    using assms(3) by (intro mult_left_mono) simp_all
  ultimately have "2 ^ 513 * ?D \<le> target * sqrt 2" by simp
  then have "2 ^ 513 \<le> target * sqrt 2 / ?D" using D by (simp only: pos_le_divide_eq)
  moreover have "target / (?D * 1 / sqrt 2) = target * sqrt 2 / ?D" by simp
  ultimately show ?thesis by simp
qed

lemma calculate_time_to_snr_overflow:
  assumes "in_band nr rate" "in_band nt rt" "in_band nc c" "in_band ng target"
    and "nr + nt \<le> m + m" "m + m \<le> 1000" "m + nc + ng + 1 \<le> 1000"
    and "c * sqrt (rate * rt) \<le> 1 / 2 ^ 513" "1 \<le> target"
  shows "calculate_time_to_snr (mk_params rate rt c) (Fin 0) (Fin target) = NaN"
proof -
  have pos: "0 < rate" "0 < rt" "0 < c"
    using assms(1-3) tracks_pos [OF tracks_input] by blast+
  from snr_quotient_tracks [OF assms(1-7)] obtain q where
    q: "div64 (Fin target)
          (div64 (mul64 (mul64 (Fin c) (sqrt64 (mul64 (Fin rate) (Fin rt)))) (Fin 1))
             (sqrt64 (Fin 2))) = Fin q"
      "tracks 7 1000 (target / (c * sqrt (rate * rt) * 1 / sqrt 2)) q"
    by auto
  have "2 ^ 513 \<le> target / (c * sqrt (rate * rt) * 1 / sqrt 2)"
    using pos assms(8,9) by (intro quotient_large) simp_all
  from pow64_2_overflow [OF q(2) _ this] have n: "pow64 (Fin q) 2 = PInf" by simp
  show ?thesis
    unfolding calculate_time_to_snr_unfold q(1) n using pos(2)
    by (simp add: mul64_def add64_def signed_inf_def)
qed

lemma calculate_time_to_snr_finite:
  assumes "in_band 100 rate" "in_band 100 rt" "in_band 100 c" "in_band 100 target"
    and "evo = 0 \<or> in_band 100 evo"
  shows "is_finite (calculate_time_to_snr (mk_params rate rt c) (Fin evo) (Fin target))"
    and "0 < val (calculate_time_to_snr (mk_params rate rt c) (Fin evo) (Fin target))"
    and "\<bar>val (calculate_time_to_snr (mk_params rate rt c) (Fin evo) (Fin target))
           - timeToTargetSNR_spec rate rt c evo target\<bar>
         \<le> timeToTargetSNR_spec rate rt c evo target / 2 ^ 46"
proof -
  from calculate_time_to_snr_tracks [OF assms] obtain v where
    v: "calculate_time_to_snr (mk_params rate rt c) (Fin evo) (Fin target) = Fin v"
      "tracks 17 703 (timeToTargetSNR_spec rate rt c evo target) v"
    unfolding readouts_exact_spec by blast
  show "is_finite (calculate_time_to_snr (mk_params rate rt c) (Fin evo) (Fin target))"
    by (simp add: v(1))
  show "0 < val (calculate_time_to_snr (mk_params rate rt c) (Fin evo) (Fin target))"
    using tracks_pos [OF v(2)] by (simp add: v(1))
  show "\<bar>val (calculate_time_to_snr (mk_params rate rt c) (Fin evo) (Fin target))
           - timeToTargetSNR_spec rate rt c evo target\<bar>
         \<le> timeToTargetSNR_spec rate rt c evo target / 2 ^ 46"
    using tracks_tolerance [OF v(2)] by (simp add: v(1))
qed

text \<open>
  Claim C3, as stated: a zero contrast or a zero count rate, and more generally a rate or
  a time that is not positive, makes the function fail with an invalid-argument error and
  never return a finite number.  The function has no such check.  With contrast zero it
  returns NaN, and with a negative rate and a negative readout time it returns a finite
  number.
\<close>

theorem time_to_snr_invalid_counterexample:
  "calculate_time_to_snr (mk_params 50000 (1/1000000) 0) (Fin 0) (Fin 5) = NaN
   \<and> is_finite
       (calculate_time_to_snr (mk_params (- 50000) (- (1/1000000)) (3/10)) (Fin 0) (Fin 5))"
proof -
  have "calculate_time_to_snr (mk_params 50000 (1/1000000) 0) (Fin 0) (Fin 5) = NaN"
    unfolding calculate_time_to_snr_unfold
    by (rule zero_snr_zero_evolution_nan) (rule mul64_zero_any)
  moreover
  have b: "in_band 100 50000" "in_band 100 (1/1000000)" "in_band 100 (3/10)" "in_band 100 5"
    by (simp_all add: in_band_def)
  from n_readouts_tracks [OF b] obtain n where
    n: "pow64 (div64 (Fin 5)
                 (div64 (mul64 (mul64 (Fin (3/10)) (sqrt64 (mul64 (Fin 50000) (Fin (1/1000000)))))
                    (Fin 1)) (sqrt64 (Fin 2)))) 2 = Fin n"
      "tracks 15 602 (readouts_exact 50000 (1/1000000) (3/10) 5) n"
    by blast
  obtain acq where acq: "mul64 (Fin n) (Fin (1/1000000)) = Fin acq"
      "tracks 16 702 (readouts_exact 50000 (1/1000000) (3/10) 5 * (1/1000000)) acq"
    using mul64_tracks [OF n(2) b(2) [THEN tracks_input], of 16 702] by auto
  obtain v where v: "b64_round acq = Fin v"
    using tracks_round_to [OF acq(2), of 17 703] by auto
  have "calculate_time_to_snr (mk_params (- 50000) (- (1/1000000)) (3/10)) (Fin 0) (Fin 5)
        = Fin (- v)"
    unfolding calculate_time_to_snr_unfold
    unfolding mul64_minus_minus [of 50000 "1/1000000"] n(1)
    unfolding mul64_minus_right acq(1) mul64_zero_left
    using b64_round_minus [of acq] by (simp add: add64_def v)
  ultimately show ?thesis by simp
qed

lemma timeToTargetSNR_spec_closed:
  assumes "0 < rate" "0 < rt" "c \<noteq> 0"
  shows "timeToTargetSNR_spec rate rt c evo target =
         2 * target\<^sup>2 * (evo + rt) / (c\<^sup>2 * rate * rt)"
proof -
  have pos: "0 < rate * rt" using assms by simp
  have sq: "(sqrt (rate * rt))\<^sup>2 = rate * rt" using pos by simp
  have "(target / (c * sqrt (rate * rt) / sqrt 2))\<^sup>2 = 2 * target\<^sup>2 / (c\<^sup>2 * rate * rt)"
    using assms sq by (simp add: power_divide power_mult_distrib field_simps)
  then show ?thesis by (simp add: timeToTargetSNR_spec_def Let_def)
qed


lemma in_band_pos: "in_band n x \<Longrightarrow> 0 < x"
  using tracks_pos [OF tracks_input] by blast

text \<open>
  Claim C1, as stated: for every positive count rate and readout time, every contrast in
  \<open>(0, 1]\<close>, every evolution time that is not negative and every positive target SNR the
  function returns \<open>requiredReadouts * (evolutionTime + readoutTime)\<close>.  With the contrast
  \<open>2 powr (-600)\<close> the square of \<open>target_snr / snr_per_readout\<close> exceeds the binary64
  range: the readouts are infinite, the product with the evolution time zero is NaN, and
  NaN is returned.
\<close>

theorem time_to_snr_overflow_counterexample:
  "calculate_time_to_snr (mk_params 50000 (1 / 2 ^ 20) (1 / 2 ^ 600)) (Fin 0) (Fin 5) = NaN"
proof (rule calculate_time_to_snr_overflow [where nr = 20 and nt = 20 and nc = 600
      and ng = 3 and m = 20])
  show "in_band 20 50000" "in_band 20 (1 / 2 ^ 20)" "in_band 600 (1 / 2 ^ 600)" "in_band 3 5"
    by (simp_all add: in_band_def)
  have "sqrt (50000 * (1 / 2 ^ 20)) \<le> 1" by simp
  then have "1 / 2 ^ 600 * sqrt (50000 * (1 / 2 ^ 20)) \<le> 1 / 2 ^ 600 * 1"
    by (intro mult_left_mono) simp_all
  also have "\<dots> \<le> 1 / (2::real) ^ 513" by simp
  finally show "1 / 2 ^ 600 * sqrt (50000 * (1 / 2 ^ 20)) \<le> 1 / 2 ^ 513" .
qed simp_all

text \<open>
  Claim C1, amended.  For a count rate, a readout time, a contrast and a target SNR
  between \<open>2 powr (-100)\<close> and \<open>2 powr 100\<close>, and an evolution time that is zero or in
  that range, the function evaluates photons = rate times readout time, SNR per readout =
  contrast times the root of the photons over the root of two, required readouts = the
  square of target SNR over SNR per readout, and evolution time times readouts plus
  readouts times readout time, each operation rounded to binary64; the value returned is
  finite and differs from \<open>requiredReadouts * (evolutionTime + readoutTime)\<close> by at most
  the fraction \<open>2 powr (-46)\<close> of it.
\<close>

theorem time_to_snr_formula_rounded:
  assumes "in_band 100 rate" "in_band 100 rt" "in_band 100 c" "in_band 100 targetSNR"
    and "evolutionTime = 0 \<or> in_band 100 evolutionTime"
  shows "is_finite (calculate_time_to_snr (mk_params rate rt c) (Fin evolutionTime) (Fin targetSNR))
       \<and> \<bar>val (calculate_time_to_snr (mk_params rate rt c) (Fin evolutionTime) (Fin targetSNR))
            - timeToTargetSNR_spec rate rt c evolutionTime targetSNR\<bar>
          \<le> timeToTargetSNR_spec rate rt c evolutionTime targetSNR / 2 ^ 46"
  using calculate_time_to_snr_finite(1,3) [OF assms] by blast

theorem time_to_snr_formula_rounded_witness:
  "is_finite (calculate_time_to_snr (mk_params 50000 (1/1000000) (3/10)) (Fin 0) (Fin 5))
   \<and> \<bar>val (calculate_time_to_snr (mk_params 50000 (1/1000000) (3/10)) (Fin 0) (Fin 5))
        - timeToTargetSNR_spec 50000 (1/1000000) (3/10) 0 5\<bar>
      \<le> timeToTargetSNR_spec 50000 (1/1000000) (3/10) 0 5 / 2 ^ 46"
proof -
  have b: "in_band 100 50000" "in_band 100 (1/1000000)" "in_band 100 (3/10)" "in_band 100 5"
    by (simp_all add: in_band_def)
  have e: "(0::real) = 0 \<or> in_band 100 0" by simp
  from time_to_snr_formula_rounded [OF b e] show ?thesis .
qed




text \<open>
  Claim C10, as stated: at evolution time zero the result is
  \<open>2 * targetSNR\<^sup>2 / (contrast\<^sup>2 * rate)\<close> for every positive readout time.  At the readout
  time \<open>2 powr (-1000)\<close>, with rate 1, contrast \<open>2 powr (-20)\<close> and target SNR 5, the
  readouts overflow and the function returns NaN.
\<close>

theorem time_to_snr_readout_time_counterexample:
  "calculate_time_to_snr (mk_params 1 (1 / 2 ^ 1000) (1 / 2 ^ 20)) (Fin 0) (Fin 5) = NaN"
proof (rule calculate_time_to_snr_overflow [where nr = 0 and nt = 1000 and nc = 20
      and ng = 3 and m = 500])
  show "in_band 0 1" "in_band 1000 (1 / 2 ^ 1000)" "in_band 20 (1 / 2 ^ 20)" "in_band 3 5"
    by (simp_all add: in_band_def)
  have "sqrt (1 / 2 ^ 1000) = 1 / (2::real) ^ 500"
    by (rule real_sqrt_unique) (simp_all add: power_divide)
  then show "1 / 2 ^ 20 * sqrt (1 * (1 / 2 ^ 1000)) \<le> 1 / 2 ^ 513" by simp
qed simp_all

text \<open>
  Claim C10, amended.  With the count rate, the contrast and the target SNR between
  \<open>2 powr (-100)\<close> and \<open>2 powr 100\<close>, at evolution time zero the result is finite and
  within the fraction \<open>2 powr (-46)\<close> of \<open>2 * targetSNR\<^sup>2 / (contrast\<^sup>2 * rate)\<close> for every
  readout time in that range: it depends on the readout time through rounding only.
\<close>

theorem time_to_snr_zero_evolution:
  assumes "in_band 100 rate" "in_band 100 c" "in_band 100 rt" "in_band 100 target"
  shows "is_finite (calculate_time_to_snr (mk_params rate rt c) (Fin 0) (Fin target))
       \<and> \<bar>val (calculate_time_to_snr (mk_params rate rt c) (Fin 0) (Fin target))
            - 2 * target\<^sup>2 / (c\<^sup>2 * rate)\<bar>
          \<le> (2 * target\<^sup>2 / (c\<^sup>2 * rate)) / 2 ^ 46"
proof -
  have pos: "0 < rate" "0 < rt" "0 < c" using assms in_band_pos by blast+
  have "timeToTargetSNR_spec rate rt c 0 target = 2 * target\<^sup>2 / (c\<^sup>2 * rate)"
    using pos by (simp add: timeToTargetSNR_spec_closed)
  with calculate_time_to_snr_finite(1,3) [OF assms(1,3,2,4), of 0] show ?thesis by simp
qed

theorem time_to_snr_zero_evolution_witness:
  "is_finite (calculate_time_to_snr (mk_params 50000 (1/1000000) (3/10)) (Fin 0) (Fin 5))
   \<and> \<bar>val (calculate_time_to_snr (mk_params 50000 (1/1000000) (3/10)) (Fin 0) (Fin 5))
        - 2 * 5\<^sup>2 / ((3/10)\<^sup>2 * 50000)\<bar>
      \<le> (2 * 5\<^sup>2 / ((3/10)\<^sup>2 * 50000)) / 2 ^ 46"
proof -
  have b: "in_band 100 50000" "in_band 100 (3/10)" "in_band 100 (1/1000000)" "in_band 100 5"
    by (simp_all add: in_band_def)
  from time_to_snr_zero_evolution [OF b] show ?thesis .
qed

section \<open>Tolerances and the exponential\<close>

lemma tracks_tolerance_general:
  assumes "tracks k n x y" "real k * b64_u \<le> e" "e \<le> 1 / 2"
  shows "\<bar>y - x\<bar> \<le> 2 * e * x"
proof -
  from tracks_pos [OF assms(1)] have p: "0 < x" "0 < y" by simp_all
  let ?s = "(1 - b64_u) ^ k"
  have e0: "0 \<le> e" using assms(2) b64_u_bounds(1)
    by (smt (verit) mult_nonneg_nonneg of_nat_0_le_iff)
  have s: "1 - e \<le> ?s" using shrink_bernoulli [of k] assms(2) by linarith
  have t: "x * ?s \<le> y" "y * ?s \<le> x" using assms(1) by (simp_all add: tracks_def)
  have "x * (1 - e) \<le> x * ?s" using s p by (intro mult_left_mono) simp_all
  then have lo: "x - e * x \<le> y" using t(1) by (simp add: algebra_simps)
  have "y * (1 - e) \<le> y * ?s" using s p by (intro mult_left_mono) simp_all
  then have ye: "y * (1 - e) \<le> x" using t(2) by linarith
  have "1 \<le> (1 - e) * (1 + 2 * e)"
  proof -
    have "e * (2 * e) \<le> e * 1" using e0 assms(3) by (intro mult_left_mono) simp_all
    then show ?thesis by (simp add: algebra_simps)
  qed
  then have "y * 1 \<le> y * ((1 - e) * (1 + 2 * e))" using p by (intro mult_left_mono) simp_all
  also have "\<dots> = y * (1 - e) * (1 + 2 * e)" by simp
  also have "\<dots> \<le> x * (1 + 2 * e)" using ye e0 by (intro mult_right_mono) simp_all
  finally have hi: "y \<le> x + 2 * e * x" by (simp add: algebra_simps)
  have "e * x \<le> 2 * e * x" using e0 p by simp
  with lo hi have "y - x \<le> 2 * e * x" "- (y - x) \<le> 2 * e * x" by linarith+
  then show ?thesis by (rule abs_leI)
qed

lemma shrink_le_exp: "(1 - b64_u) ^ k \<le> exp (- (real k * b64_u))"
proof -
  have "1 - b64_u \<le> exp (- b64_u)" using exp_ge_add_one_self [of "- b64_u"] by simp
  then have "(1 - b64_u) ^ k \<le> exp (- b64_u) ^ k"
    using b64_u_bounds by (intro power_mono) simp_all
  also have "\<dots> = exp (real k * (- b64_u))" by (simp only: exp_of_nat_mult)
  finally show ?thesis by simp
qed

text \<open>The exponential of a negated value whose absolute error is at most \<open>k\<close> roundoffs.\<close>

lemma exp_neg_tracks:
  assumes "\<bar>z - t\<bar> \<le> real k * b64_u" "in_band n (exp (- t))"
  shows "tracks k n (exp (- t)) (exp (- z))"
proof -
  let ?s = "(1 - b64_u) ^ k"
  have s: "0 < ?s" by (rule shrink_pos)
  have a: "?s \<le> exp (t - z)"
  proof -
    have "- (real k * b64_u) \<le> t - z" using assms(1) by linarith
    then have "exp (- (real k * b64_u)) \<le> exp (t - z)" by simp
    with shrink_le_exp [of k] show ?thesis by linarith
  qed
  have b: "?s \<le> exp (z - t)"
  proof -
    have "- (real k * b64_u) \<le> z - t" using assms(1) by linarith
    then have "exp (- (real k * b64_u)) \<le> exp (z - t)" by simp
    with shrink_le_exp [of k] show ?thesis by linarith
  qed
  have "exp (- t) * ?s \<le> exp (- t) * exp (t - z)" using a by (intro mult_left_mono) simp_all
  also have "\<dots> = exp (- z)" by (simp add: exp_add [symmetric])
  finally have lo: "exp (- t) * ?s \<le> exp (- z)" .
  have "exp (- z) * ?s \<le> exp (- z) * exp (z - t)" using b by (intro mult_left_mono) simp_all
  also have "\<dots> = exp (- t)" by (simp add: exp_add [symmetric])
  finally have hi: "exp (- z) * ?s \<le> exp (- t)" .
  from assms(2) lo hi show ?thesis by (simp add: in_band_def tracks_def)
qed

lemma exp64_neg_tracks:
  assumes "\<bar>z - t\<bar> \<le> real k1 * b64_u" "in_band n1 (exp (- t))"
    and "k1 < k" "k \<le> 100000" "n1 \<le> n" "n \<le> 1000"
  shows "\<exists>v. exp64 (Fin (- z)) = Fin v \<and> tracks k n (exp (- t)) v"
  using tracks_round_to [OF exp_neg_tracks [OF assms(1,2)] assms(3-6)] by (simp add: exp64_def)

lemma exp_one_bounds: "(2::real) \<le> exp 1" "exp 1 \<le> (3::real)"
  using exp_ge_add_one_self [of "1::real"] exp_bound [of "1::real"] by simp_all

lemma exp_nat_bounds: "2 ^ n \<le> exp (real n)" "exp (real n) \<le> 4 ^ n"
proof -
  have e: "exp (real n) = exp 1 ^ n" using exp_of_nat_mult [of n "1::real"] by simp
  show "2 ^ n \<le> exp (real n)" unfolding e using exp_one_bounds by (intro power_mono) simp_all
  have "exp 1 ^ n \<le> (3::real) ^ n" using exp_one_bounds by (intro power_mono) simp_all
  also have "\<dots> \<le> 4 ^ n" by (intro power_mono) simp_all
  finally show "exp (real n) \<le> 4 ^ n" unfolding e .
qed

section \<open>Momentum filter function\<close>

lemma mul64_minus_left: "mul64 (Fin (- a)) (Fin b) = fneg (mul64 (Fin a) (Fin b))"
  using b64_round_minus [of "a * b"] by (simp add: mul64_def)

lemma pow64_3_tracks:
  assumes "tracks 0 n1 q q" "n1 + n1 + n1 \<le> n" "n \<le> 1000"
  shows "\<exists>c. pow64 (Fin q) 3 = Fin c \<and> tracks 1 n (q ^ 3) c"
proof -
  have "tracks 0 (n1 + n1 + n1) (q * q * q) (q * q * q)"
    using tracks_mult [OF tracks_mult [OF assms(1) assms(1)] assms(1)] by simp
  then have "tracks 0 (n1 + n1 + n1) (q ^ 3) (q ^ 3)" by (simp add: power3_eq_cube)
  from tracks_round_to [OF this, of 1 n] assms(2,3) show ?thesis by (simp add: pow64_def)
qed

text \<open>The argument of the exponential, \<open>-2*q*d\<close>: the negative of a value that follows
  \<open>2 * q * d\<close> through two roundings.\<close>

lemma kernel_exponent_tracks:
  assumes "in_band nq q" "in_band nd d" "nq + nd + 1 \<le> n" "n \<le> 1000"
  shows "\<exists>y. mul64 (mul64 (Fin (- 2)) (Fin q)) (Fin d) = Fin (- y) \<and> tracks 2 n (2 * q * d) y"
proof -
  note i = assms(1,2) [THEN tracks_input]
  obtain y1 where y1: "mul64 (Fin 2) (Fin q) = Fin y1" "tracks 1 (nq + 1) (2 * q) y1"
    using mul64_tracks [OF tracks_two i(1), of 1 "nq + 1"] assms(3,4) by auto
  obtain y where y: "mul64 (Fin y1) (Fin d) = Fin y" "tracks 2 n (2 * q * d) y"
    using mul64_tracks [OF y1(2) i(2), of 2 n] assms(3,4) by auto
  have "mul64 (mul64 (Fin (- 2)) (Fin q)) (Fin d) = Fin (- y)"
    by (simp add: mul64_minus_left y1(1) y(1))
  with y(2) show ?thesis by blast
qed

lemma f_tracks:
  assumes "in_band 3 q" "in_band 3 d"
  shows "\<exists>v. f builtin (Fin q) (Fin d) = Inr (Fin v) \<and> tracks 515 265 (momentumKernel q d) v"
proof -
  note i = assms [THEN tracks_input]
  obtain c where c: "pow64 (Fin q) 3 = Fin c" "tracks 1 9 (q ^ 3) c"
    using pow64_3_tracks [OF i(1), of 9] by auto
  have cube: "pow_py builtin (Fin q) 3 = Inr (Fin c)" by (simp add: pow_py_def c(1))
  from kernel_exponent_tracks [OF assms, of 7] obtain y where
    y: "mul64 (mul64 (Fin (- 2)) (Fin q)) (Fin d) = Fin (- y)" "tracks 2 7 (2 * q * d) y"
    by auto
  let ?t = "2 * q * d"
  have q: "0 < q" "q \<le> 8" "1 / 8 \<le> q" and d: "0 < d" "d \<le> 8" "1 / 8 \<le> d"
    using assms in_band_pos [of 3] by (simp_all add: in_band_def)
  have "q * d \<le> 8 * 8" using q d by (intro mult_mono) simp_all
  moreover have "?t = 2 * (q * d)" by simp
  ultimately have "?t \<le> 128" by linarith
  moreover have "0 < ?t" using q d by simp
  ultimately have t: "0 < ?t" "?t \<le> 128" by simp_all
  have "2 * real 2 * b64_u \<le> 4 * b64_u" by simp
  have "\<bar>y - ?t\<bar> \<le> 2 * (2 * b64_u) * ?t"
    using tracks_tolerance_general [OF y(2), of "2 * b64_u"] by (simp add: b64_u_def)
  also have "\<dots> \<le> 2 * (2 * b64_u) * 128"
    using t b64_u_bounds by (intro mult_left_mono) simp_all
  also have "\<dots> = real 512 * b64_u" by simp
  finally have err: "\<bar>y - ?t\<bar> \<le> real 512 * b64_u" .
  have band: "in_band 256 (exp (- ?t))"
  proof -
    have "exp ?t \<le> exp (real 128)" using t by simp
    also have "\<dots> \<le> 4 ^ 128" by (rule exp_nat_bounds)
    also have "\<dots> = (2::real) ^ 256" by simp
    finally have "exp ?t \<le> 2 ^ 256" .
    then have "1 / 2 ^ 256 \<le> 1 / exp ?t" by (intro divide_left_mono) simp_all
    then have lo: "1 / 2 ^ 256 \<le> exp (- ?t)" by (simp add: exp_minus inverse_eq_divide)
    have "exp (- ?t) \<le> 1" using t by simp
    also have "(1::real) \<le> 2 ^ 256" by simp
    finally show ?thesis using lo by (simp add: in_band_def)
  qed
  obtain e where e: "exp64 (Fin (- y)) = Fin e" "tracks 513 256 (exp (- ?t)) e"
    using exp64_neg_tracks [OF err band, of 513 256] by auto
  obtain v where v: "mul64 (Fin c) (Fin e) = Fin v" "tracks 515 265 (q ^ 3 * exp (- ?t)) v"
    using mul64_tracks [OF c(2) e(2), of 515 265] by auto
  have "f builtin (Fin q) (Fin d) = Inr (Fin v)"
    by (simp add: f_def cube y(1) e(1) v(1))
  moreover have "q ^ 3 * exp (- ?t) = momentumKernel q d" by (simp add: momentumKernel_def)
  ultimately show ?thesis using v(2) by auto
qed

lemma exp64_underflow:
  assumes "1076 \<le> y"
  shows "exp64 (Fin (- y)) = Fin 0"
proof -
  have "(2::real) ^ 1076 \<le> exp (real 1076)" by (rule exp_nat_bounds)
  also have "\<dots> \<le> exp y" using assms by simp
  finally have "1 / exp y \<le> 1 / 2 ^ 1076" by (intro divide_left_mono) simp_all
  moreover have "1 / (2::real) ^ 1076 < 1 / 2 ^ 1075" by simp
  ultimately have "exp (- y) < 1 / 2 ^ 1075" by (simp add: exp_minus inverse_eq_divide)
  then have "\<bar>exp (- y)\<bar> < 1 / 2 ^ 1075" by simp
  from b64_round_underflow [OF this] show ?thesis by (simp add: exp64_def)
qed

lemma f_underflow:
  assumes "in_band nq q" "in_band nd d" "nq + nq + nq \<le> 1000" "nq + nd + 1 \<le> 1000"
    and "2200 \<le> 2 * q * d"
  shows "f False (Fin q) (Fin d) = Inr (Fin 0)"
proof -
  obtain c where c: "pow64 (Fin q) 3 = Fin c"
    using pow64_3_tracks [OF assms(1) [THEN tracks_input], of 1000] assms(3) by auto
  from kernel_exponent_tracks [OF assms(1,2), of 1000] assms(4) obtain y where
    y: "mul64 (mul64 (Fin (- 2)) (Fin q)) (Fin d) = Fin (- y)" "tracks 2 1000 (2 * q * d) y"
    by auto
  define t where "t = 2 * q * d"
  from tracks_pos [OF y(2)] have p: "0 < t" by (simp add: t_def)
  have "t * (1 / 2) \<le> t * (1 - b64_u) ^ 2"
    using shrink_half [of 2] p by (intro mult_left_mono) simp_all
  moreover have "t * (1 - b64_u) ^ 2 \<le> y" using y(2) by (simp add: tracks_def t_def)
  moreover have "2200 \<le> t" using assms(5) by (simp add: t_def)
  ultimately have "1076 \<le> y" by linarith
  from exp64_underflow [OF this] show ?thesis
    by (simp add: f_def pow_py_def c y(1) mul64_zero_right)
qed

lemma kernel_as_exp:
  fixes q d :: real
  assumes "0 < q"
  shows "momentumKernel q d = exp (3 * ln q - 2 * q * d)"
proof -
  have "exp (3 * ln q) = exp (ln q) ^ 3"
    using exp_of_nat_mult [of 3 "ln q"] by simp
  then have "exp (3 * ln q) = q ^ 3" using assms by simp
  then show ?thesis by (simp add: momentumKernel_def exp_diff exp_minus field_simps)
qed

lemma kernel_increasing:
  fixes q1 q2 d :: real
  assumes "0 < d" "0 < q1" "q1 < q2" "q2 \<le> 3 / (2 * d)"
  shows "momentumKernel q1 d < momentumKernel q2 d"
proof -
  have q2: "0 < q2" using assms by simp
  have "ln q1 - ln q2 < (q1 - q2) / q2"
    using ln_diff_less [of q1 q2] assms q2 by simp
  then have l: "(q2 - q1) / q2 < ln q2 - ln q1"
    by (simp add: diff_divide_distrib)
  have "2 * d * q2 \<le> 3" using assms q2 by (simp add: field_simps)
  then have "2 * d \<le> 3 / q2" using q2 by (simp add: field_simps)
  then have "2 * d * (q2 - q1) \<le> 3 / q2 * (q2 - q1)"
    using assms by (intro mult_right_mono) simp_all
  also have "\<dots> = 3 * ((q2 - q1) / q2)" by simp
  also have "\<dots> < 3 * (ln q2 - ln q1)" using l by (intro mult_strict_left_mono) simp_all
  finally have "3 * ln q1 - 2 * q1 * d < 3 * ln q2 - 2 * q2 * d"
    by (simp add: algebra_simps)
  then show ?thesis
    unfolding kernel_as_exp [OF assms(2)] kernel_as_exp [OF q2] by simp
qed

lemma kernel_decreasing:
  fixes q1 q2 d :: real
  assumes "0 < d" "3 / (2 * d) \<le> q1" "q1 < q2"
  shows "momentumKernel q2 d < momentumKernel q1 d"
proof -
  have "0 < 3 / (2 * d)" using assms by simp
  then have q1: "0 < q1" using assms by linarith
  then have q2: "0 < q2" using assms by simp
  have l: "ln q2 - ln q1 < (q2 - q1) / q1"
    using ln_diff_less [of q2 q1] assms q1 q2 by simp
  have "3 \<le> 2 * d * q1" using assms by (simp add: field_simps)
  then have "3 / q1 \<le> 2 * d" using q1 by (simp add: field_simps)
  then have "3 / q1 * (q2 - q1) \<le> 2 * d * (q2 - q1)"
    using assms by (intro mult_right_mono) simp_all
  moreover have "3 * (ln q2 - ln q1) < 3 * ((q2 - q1) / q1)"
    using l by (intro mult_strict_left_mono) simp_all
  moreover have "3 * ((q2 - q1) / q1) = 3 / q1 * (q2 - q1)" by simp
  ultimately have "3 * (ln q2 - ln q1) < 2 * d * (q2 - q1)" by linarith
  then have "3 * ln q2 - 2 * q2 * d < 3 * ln q1 - 2 * q1 * d"
    by (simp add: algebra_simps)
  then show ?thesis
    unfolding kernel_as_exp [OF q1] kernel_as_exp [OF q2] by simp
qed

lemma kernel_maximum:
  fixes q d :: real
  assumes "0 < d" "0 < q" "q \<noteq> 3 / (2 * d)"
  shows "momentumKernel q d < momentumKernel (3 / (2 * d)) d"
proof (cases "q < 3 / (2 * d)")
  case True
  then show ?thesis using kernel_increasing [OF assms(1,2), of "3 / (2 * d)"] by simp
next
  case False
  then have "3 / (2 * d) < q" using assms(3) by simp
  then show ?thesis using kernel_decreasing [OF assms(1), of "3 / (2 * d)" q] by simp
qed

lemma f_close:
  assumes "in_band 3 q" "in_band 3 d"
  shows "\<exists>v. f builtin (Fin q) (Fin d) = Inr (Fin v) \<and> 0 \<le> v
           \<and> \<bar>v - momentumKernel q d\<bar> \<le> momentumKernel q d / 2 ^ 42"
proof -
  from f_tracks [OF assms] obtain v where
    v: "f builtin (Fin q) (Fin d) = Inr (Fin v)" "tracks 515 265 (momentumKernel q d) v" by blast
  have "real 515 * b64_u \<le> 1 / 2 ^ 43" by (simp add: b64_u_def)
  from tracks_tolerance_general [OF v(2) this]
  have "\<bar>v - momentumKernel q d\<bar> \<le> momentumKernel q d / 2 ^ 42" by simp
  moreover have "0 \<le> v" using tracks_pos [OF v(2)] by simp
  ultimately show ?thesis using v(1) by blast
qed

text \<open>
  Claim C5, as stated: for every \<open>q > 0\<close> and \<open>d > 0\<close> the kernel is a real number that is
  not negative, with a single maximum at \<open>q = 3 / (2 d)\<close>.  At \<open>d = 1\<close> the exponential
  underflows for \<open>q = 2000\<close> and for \<open>q = 4000\<close>: both values are zero, so the computed
  kernel does not fall strictly after the maximum.  With a built-in \<open>float\<close> \<open>q = 10^103\<close>
  the cube overflows and the call raises \<open>OverflowError\<close>.
\<close>

theorem momentum_kernel_underflow_counterexample:
  "f False (Fin 2000) (Fin 1) = Inr (Fin 0) \<and> f False (Fin 4000) (Fin 1) = Inr (Fin 0)
   \<and> f True (Fin (10 ^ 103)) (Fin 1) = Inl OverflowError"
proof -
  have b: "in_band 12 2000" "in_band 12 4000" "in_band 0 1" by (simp_all add: in_band_def)
  have "f False (Fin 2000) (Fin 1) = Inr (Fin 0)"
    by (rule f_underflow [OF b(1) b(3)]) simp_all
  moreover have "f False (Fin 4000) (Fin 1) = Inr (Fin 0)"
    by (rule f_underflow [OF b(2) b(3)]) simp_all
  moreover have "f True (Fin (10 ^ 103)) (Fin 1) = Inl OverflowError"
  proof -
    have "(2::real) ^ 1024 \<le> (10 ^ 103) ^ 3" by simp
    then have "pow64 (Fin (10 ^ 103)) 3 = PInf"
      by (simp only: pow64_def fpow.simps b64.simps b64_round_overflow)
    then show ?thesis by (simp add: f_def pow_py_def)
  qed
  ultimately show ?thesis by blast
qed

text \<open>
  Claim C5, amended.  For \<open>q\<close> and \<open>d\<close> between \<open>1/8\<close> and \<open>8\<close>, which holds on the
  script's grid, the kernel computed in binary64 is a finite number, not negative, within
  the fraction \<open>2 powr (-42)\<close> of \<open>q\<^sup>3 * exp (- 2 q d)\<close>.  For each \<open>d > 0\<close> that real
  function rises strictly up to \<open>q = 3 / (2 d)\<close> and falls strictly after it, so this
  point is its only maximum on \<open>q > 0\<close>.
\<close>

theorem momentum_kernel_single_maximum:
  assumes "0 < d"
  shows "(in_band 3 d \<longrightarrow> (\<forall>q. in_band 3 q \<longrightarrow>
            (\<exists>v. f builtin (Fin q) (Fin d) = Inr (Fin v) \<and> 0 \<le> v
               \<and> \<bar>v - momentumKernel q d\<bar> \<le> momentumKernel q d / 2 ^ 42)))
       \<and> 0 < 3 / (2 * d)
       \<and> (\<forall>q. 0 < q \<longrightarrow> q \<noteq> 3 / (2 * d) \<longrightarrow>
             momentumKernel q d < momentumKernel (3 / (2 * d)) d)
       \<and> (\<forall>q1 q2. 0 < q1 \<longrightarrow> q1 < q2 \<longrightarrow> q2 \<le> 3 / (2 * d) \<longrightarrow>
             momentumKernel q1 d < momentumKernel q2 d)
       \<and> (\<forall>q1 q2. 3 / (2 * d) \<le> q1 \<longrightarrow> q1 < q2 \<longrightarrow>
             momentumKernel q2 d < momentumKernel q1 d)"
proof -
  have star: "0 < 3 / (2 * d)" using assms by simp
  have a: "in_band 3 d \<longrightarrow> (\<forall>q. in_band 3 q \<longrightarrow>
            (\<exists>v. f builtin (Fin q) (Fin d) = Inr (Fin v) \<and> 0 \<le> v
               \<and> \<bar>v - momentumKernel q d\<bar> \<le> momentumKernel q d / 2 ^ 42))"
    using f_close by blast
  have mx: "\<forall>q. 0 < q \<longrightarrow> q \<noteq> 3 / (2 * d) \<longrightarrow>
             momentumKernel q d < momentumKernel (3 / (2 * d)) d"
    using kernel_maximum [OF assms] by blast
  have inc: "\<forall>q1 q2. 0 < q1 \<longrightarrow> q1 < q2 \<longrightarrow> q2 \<le> 3 / (2 * d) \<longrightarrow>
             momentumKernel q1 d < momentumKernel q2 d"
    using kernel_increasing [OF assms] by blast
  have dec: "\<forall>q1 q2. 3 / (2 * d) \<le> q1 \<longrightarrow> q1 < q2 \<longrightarrow>
             momentumKernel q2 d < momentumKernel q1 d"
    using kernel_decreasing [OF assms] by blast
  from a star mx inc dec show ?thesis by blast
qed

theorem momentum_kernel_single_maximum_witness:
  "(\<exists>v. f False (Fin (3/2)) (Fin 1) = Inr (Fin v) \<and> 0 \<le> v
       \<and> \<bar>v - momentumKernel (3/2) 1\<bar> \<le> momentumKernel (3/2) 1 / 2 ^ 42)
   \<and> momentumKernel 1 1 < momentumKernel (3 / (2 * 1)) 1
   \<and> momentumKernel 2 1 < momentumKernel (3 / (2 * 1)) 1"
proof -
  have d: "(0::real) < 1" by simp
  have b: "in_band 3 1" "in_band 3 (3/2)" by (simp_all add: in_band_def)
  have n: "(0::real) < 1" "(1::real) \<noteq> 3 / (2 * 1)" "(0::real) < 2" "(2::real) \<noteq> 3 / (2 * 1)"
    by simp_all
  note h = momentum_kernel_single_maximum [OF d, of False]
  from h b have "\<exists>v. f False (Fin (3/2)) (Fin 1) = Inr (Fin v) \<and> 0 \<le> v
       \<and> \<bar>v - momentumKernel (3/2) 1\<bar> \<le> momentumKernel (3/2) 1 / 2 ^ 42" by blast
  moreover from h n(1,2) have "momentumKernel 1 1 < momentumKernel (3 / (2 * 1)) 1" by blast
  moreover from h n(3,4) have "momentumKernel 2 1 < momentumKernel (3 / (2 * 1)) 1" by blast
  ultimately show ?thesis by blast
qed

section \<open>Gaussian approximation of a delta function\<close>



















section \<open>Sombrero potential\<close>












section \<open>Stretched-exponential fit\<close>







lemma diag3:
  "diag [[a, b, c], [d, e, g], [h, i, j]] = [a, e, j]"
  by (simp add: diag_def upt_rec)


lemma fsqrt_zero_iff: "fsqrt x = Fin 0 \<longleftrightarrow> x = Fin 0"
  by (cases x) simp_all

lemma fit_T1_decay_returns:
  assumes "initial_guesses t s = Inr p0"
    and "cf stretched_exp t s e p0 True 10000 = Inr (popt, pcov)"
    and "length popt = 3"
  shows "fit_T1_decay cf t s e = Inr (popt, map fsqrt (diag pcov))"
  using assms by (simp add: fit_T1_decay_def)

lemma fit_T1_decay_raises:
  assumes "initial_guesses t s = Inr p0"
    and "cf stretched_exp t s e p0 True 10000 = Inl err"
  shows "fit_T1_decay cf t s e = Inl err"
  using assms by (simp add: fit_T1_decay_def)

lemma fit_T1_decay_result:
  assumes "fit_T1_decay cf t s e = Inr (popt, perr)"
  shows "\<exists>p0 pcov. initial_guesses t s = Inr p0
           \<and> cf stretched_exp t s e p0 True 10000 = Inr (popt, pcov)
           \<and> perr = map fsqrt (diag pcov)"
  using assms
  by (auto simp: fit_T1_decay_def split: sum.splits prod.splits if_splits)

lemma fit_T1_decay_maxfev:
  assumes "\<And>g xs ys sg p a. cf' g xs ys sg p a 10000 = cf g xs ys sg p a 10000"
  shows "fit_T1_decay cf' t s e = fit_T1_decay cf t s e"
  unfolding fit_T1_decay_def assms ..



text \<open>
  Claim C8, as stated: a fit that fails, by not converging or by a covariance that is
  singular or not positive definite, reaches the caller as an outcome distinct from a
  successful fit.  The library routine reports a covariance it cannot estimate by
  returning a matrix filled with infinities (and a warning), as it does for a signal that
  is zero throughout, where the initial amplitude is zero and the model no longer depends
  on \<open>tau\<close> and \<open>gamma\<close>.  The script takes that return as any other: the result is a
  normal one, with infinite standard errors.
\<close>

theorem fit_singular_covariance_counterexample:
  "fit_T1_decay
     (\<lambda>g xs ys sg p0 a m. Inr (p0,
        [[PInf, PInf, PInf], [PInf, PInf, PInf], [PInf, PInf, PInf]]))
     [Fin 0, Fin 1000, Fin 2000] [Fin 0, Fin 0, Fin 0] [Fin 1, Fin 1, Fin 1] =
   Inr ([Fin 0, Fin 1000, Fin 1], [PInf, PInf, PInf])"
  by (simp add: fit_T1_decay_def initial_guesses_def fsub_def diag3)

text \<open>
  Claim C8, amended.  The fit is called with the cap \<open>maxfev = 10000\<close> and with no other
  value.  An error raised by the fitting routine, such as non-convergence, ends the script
  with that error, distinct from a result.  A covariance matrix that the routine returns
  is not examined: the result is normal and its standard errors are the square roots of
  the diagonal, so an infinite entry gives an infinite standard error and a negative entry
  gives NaN; a standard error is zero only where the diagonal entry is zero.
\<close>

theorem fit_failure_outcomes:
  "(\<forall>cf'. (\<forall>g xs ys sg p a. cf' g xs ys sg p a 10000 = cf g xs ys sg p a 10000) \<longrightarrow>
         fit_T1_decay cf' t s e = fit_T1_decay cf t s e)
   \<and> (initial_guesses t s = Inr p0 \<longrightarrow> cf stretched_exp t s e p0 True 10000 = Inl err \<longrightarrow>
        fit_T1_decay cf t s e = Inl err)
   \<and> (initial_guesses t s = Inr p0 \<longrightarrow> cf stretched_exp t s e p0 True 10000 = Inr (popt, pcov) \<longrightarrow>
        length popt = 3 \<longrightarrow> fit_T1_decay cf t s e = Inr (popt, map fsqrt (diag pcov)))
   \<and> (fit_T1_decay cf t s e = Inr (popt, perr) \<longrightarrow>
        (\<exists>p0 pcov. initial_guesses t s = Inr p0
           \<and> cf stretched_exp t s e p0 True 10000 = Inr (popt, pcov)
           \<and> perr = map fsqrt (diag pcov)
           \<and> (\<forall>i < length perr.
                 (perr ! i = Fin 0 \<longleftrightarrow> diag pcov ! i = Fin 0)
               \<and> (diag pcov ! i = PInf \<longrightarrow> perr ! i = PInf)
               \<and> (\<forall>v < 0. diag pcov ! i = Fin v \<longrightarrow> perr ! i = NaN))))"
proof -
  have a: "\<forall>cf'. (\<forall>g xs ys sg p a. cf' g xs ys sg p a 10000 = cf g xs ys sg p a 10000) \<longrightarrow>
         fit_T1_decay cf' t s e = fit_T1_decay cf t s e"
    using fit_T1_decay_maxfev by blast
  have b: "initial_guesses t s = Inr p0 \<longrightarrow> cf stretched_exp t s e p0 True 10000 = Inl err \<longrightarrow>
        fit_T1_decay cf t s e = Inl err"
    using fit_T1_decay_raises by blast
  have c: "initial_guesses t s = Inr p0 \<longrightarrow> cf stretched_exp t s e p0 True 10000 = Inr (popt, pcov) \<longrightarrow>
        length popt = 3 \<longrightarrow> fit_T1_decay cf t s e = Inr (popt, map fsqrt (diag pcov))"
    using fit_T1_decay_returns by blast
  have d: "\<exists>p0 pcov. initial_guesses t s = Inr p0
           \<and> cf stretched_exp t s e p0 True 10000 = Inr (popt, pcov)
           \<and> perr = map fsqrt (diag pcov)
           \<and> (\<forall>i < length perr.
                 (perr ! i = Fin 0 \<longleftrightarrow> diag pcov ! i = Fin 0)
               \<and> (diag pcov ! i = PInf \<longrightarrow> perr ! i = PInf)
               \<and> (\<forall>v < 0. diag pcov ! i = Fin v \<longrightarrow> perr ! i = NaN))"
    if r: "fit_T1_decay cf t s e = Inr (popt, perr)"
  proof -
    from fit_T1_decay_result [OF r] obtain p0' pcov' where
      h: "initial_guesses t s = Inr p0'" "cf stretched_exp t s e p0' True 10000 = Inr (popt, pcov')"
        "perr = map fsqrt (diag pcov')" by blast
    have "\<forall>i < length perr.
                 (perr ! i = Fin 0 \<longleftrightarrow> diag pcov' ! i = Fin 0)
               \<and> (diag pcov' ! i = PInf \<longrightarrow> perr ! i = PInf)
               \<and> (\<forall>v < 0. diag pcov' ! i = Fin v \<longrightarrow> perr ! i = NaN)"
      unfolding h(3) by (simp add: fsqrt_zero_iff)
    with h show ?thesis by blast
  qed
  from a b c d show ?thesis by blast
qed

theorem fit_failure_outcomes_witness:
  "fit_T1_decay (\<lambda>g xs ys sg p a m. Inl RuntimeError)
     [Fin 0, Fin 1000, Fin 2000] [Fin 2, Fin 1, Fin (1/2)] [Fin 1, Fin 1, Fin 1] =
   Inl RuntimeError
   \<and> fit_T1_decay
       (\<lambda>g xs ys sg p a m. Inr (p, [[Fin (- 1), Fin 0, Fin 0], [Fin 0, PInf, Fin 0],
                                     [Fin 0, Fin 0, Fin 0]]))
       [Fin 0, Fin 1000, Fin 2000] [Fin 2, Fin 1, Fin (1/2)] [Fin 1, Fin 1, Fin 1] =
     Inr ([Fin 2, Fin 1000, Fin 1],
          map fsqrt (diag [[Fin (- 1), Fin 0, Fin 0], [Fin 0, PInf, Fin 0],
                           [Fin 0, Fin 0, Fin 0]]))"
proof -
  have g: "initial_guesses [Fin 0, Fin 1000, Fin 2000] [Fin 2, Fin 1, Fin (1/2)] =
           Inr [Fin 2, Fin 1000, Fin 1]"
    by (simp add: initial_guesses_def fsub_def)
  have l: "length [Fin 2, Fin 1000, Fin 1] = 3" by simp
  from g fit_failure_outcomes [where cf = "\<lambda>g xs ys sg p a m. Inl RuntimeError"
      and t = "[Fin 0, Fin 1000, Fin 2000]" and s = "[Fin 2, Fin 1, Fin (1/2)]"
      and e = "[Fin 1, Fin 1, Fin 1]" and ?p0.0 = "[Fin 2, Fin 1000, Fin 1]"
      and err = RuntimeError]
  have "fit_T1_decay (\<lambda>g xs ys sg p a m. Inl RuntimeError)
     [Fin 0, Fin 1000, Fin 2000] [Fin 2, Fin 1, Fin (1/2)] [Fin 1, Fin 1, Fin 1] =
     Inl RuntimeError" by blast
  moreover
  from g l fit_failure_outcomes [where cf = "\<lambda>g xs ys sg p a m. Inr (p, [[Fin (- 1), Fin 0, Fin 0],
        [Fin 0, PInf, Fin 0], [Fin 0, Fin 0, Fin 0]])"
      and t = "[Fin 0, Fin 1000, Fin 2000]" and s = "[Fin 2, Fin 1, Fin (1/2)]"
      and e = "[Fin 1, Fin 1, Fin 1]" and ?p0.0 = "[Fin 2, Fin 1000, Fin 1]"
      and popt = "[Fin 2, Fin 1000, Fin 1]"
      and pcov = "[[Fin (- 1), Fin 0, Fin 0], [Fin 0, PInf, Fin 0], [Fin 0, Fin 0, Fin 0]]"]
  have "fit_T1_decay
       (\<lambda>g xs ys sg p a m. Inr (p, [[Fin (- 1), Fin 0, Fin 0], [Fin 0, PInf, Fin 0],
                                     [Fin 0, Fin 0, Fin 0]]))
       [Fin 0, Fin 1000, Fin 2000] [Fin 2, Fin 1, Fin (1/2)] [Fin 1, Fin 1, Fin 1] =
     Inr ([Fin 2, Fin 1000, Fin 1],
          map fsqrt (diag [[Fin (- 1), Fin 0, Fin 0], [Fin 0, PInf, Fin 0],
                           [Fin 0, Fin 0, Fin 0]]))" by blast
  ultimately show ?thesis by blast
qed

end
